theory Spec2Isabelle
  imports Complex_Main "HOL-Library.Char_ord" "HOL-Library.Sublist"
begin

section \<open>Go strings\<close>

text \<open>
  A Go string is a sequence of bytes; \<^typ>\<open>string\<close> is a list of 8-bit characters.
  The functions of package \<open>strings\<close> that the reporter calls are modelled on bytes.
  The case mappings (\<open>ToUpper\<close>, \<open>ToLower\<close>, \<open>Title\<close>, \<open>EqualFold\<close>) are modelled for
  ASCII only: on a byte outside ASCII they are the identity, whereas Go decodes UTF-8 and
  applies the Unicode tables. Theorems that depend on them say so in a hypothesis.
\<close>

definition isASCII :: "string \<Rightarrow> bool" where
  "isASCII s = list_all (\<lambda>c. c < CHR 0x80) s"

text \<open>\<open>strings.Contains(s, substr)\<close>: some suffix of \<open>s\<close> starts with \<open>substr\<close>.\<close>

fun strings_Contains :: "string \<Rightarrow> string \<Rightarrow> bool" where
  "strings_Contains [] substr = (substr = [])"
| "strings_Contains (c # s) substr = (prefix substr (c # s) \<or> strings_Contains s substr)"

text \<open>
  \<open>strings.Replace(s, old, "", -1)\<close>: every non-overlapping occurrence of \<open>old\<close>, found
  from the left, is removed. With an empty \<open>old\<close> Go inserts the (empty) replacement at
  every position, which leaves \<open>s\<close> as it is.
\<close>

function strings_Remove :: "string \<Rightarrow> string \<Rightarrow> string" where
  "strings_Remove s old =
     (if old = [] \<or> s = [] then s
      else if prefix old s then strings_Remove (drop (length old) s) old
      else hd s # strings_Remove (tl s) old)"
  by pat_completeness auto
termination
  by (relation "measure (\<lambda>(s, old). length s)") auto

declare strings_Remove.simps [simp del]

definition isLower :: "char \<Rightarrow> bool" where
  "isLower c = (CHR ''a'' \<le> c \<and> c \<le> CHR ''z'')"

definition isUpper :: "char \<Rightarrow> bool" where
  "isUpper c = (CHR ''A'' \<le> c \<and> c \<le> CHR ''Z'')"

definition isDigit :: "char \<Rightarrow> bool" where
  "isDigit c = (CHR ''0'' \<le> c \<and> c \<le> CHR ''9'')"

definition upperRune :: "char \<Rightarrow> char" where
  "upperRune c = (if isLower c then char_of (of_char c - (32::nat)) else c)"

definition lowerRune :: "char \<Rightarrow> char" where
  "lowerRune c = (if isUpper c then char_of (of_char c + (32::nat)) else c)"

definition strings_ToUpper :: "string \<Rightarrow> string" where
  "strings_ToUpper s = map upperRune s"

definition strings_ToLower :: "string \<Rightarrow> string" where
  "strings_ToLower s = map lowerRune s"

text \<open>
  \<open>strings.EqualFold(s, t)\<close>: equal up to the case of letters, rune by rune.
\<close>

fun strings_EqualFold :: "string \<Rightarrow> string \<Rightarrow> bool" where
  "strings_EqualFold [] [] = True"
| "strings_EqualFold (a # s) (b # t) = (lowerRune a = lowerRune b \<and> strings_EqualFold s t)"
| "strings_EqualFold _ _ = False"

text \<open>
  \<open>strings.Title(s)\<close>: the first letter of every word is mapped to upper case and nothing
  else changes. A word starts after a separator; the start of the string counts as one.
  ASCII letters, digits and the underscore are not separators, every other ASCII
  character is.
\<close>

definition isSeparator :: "char \<Rightarrow> bool" where
  "isSeparator c = (\<not> (isDigit c \<or> isLower c \<or> isUpper c \<or> c = CHR ''_'') \<and> c < CHR 0x80)"

fun titleFrom :: "char \<Rightarrow> string \<Rightarrow> string" where
  "titleFrom prev [] = []"
| "titleFrom prev (c # s) = (if isSeparator prev then upperRune c else c) # titleFrom c s"

definition strings_Title :: "string \<Rightarrow> string" where
  "strings_Title s = titleFrom (CHR '' '') s"

text \<open>\<open>fmt.Sprintf("%d", n)\<close>: the decimal digits of an integer, with a sign when negative.\<close>

fun digitsOf :: "nat \<Rightarrow> string" where
  "digitsOf n =
     (if n < 10 then [''0123456789'' ! n]
      else digitsOf (n div 10) @ [''0123456789'' ! (n mod 10)])"

declare digitsOf.simps [simp del]

definition fmt_d :: "int \<Rightarrow> string" where
  "fmt_d i = (if i < 0 then CHR ''-'' # digitsOf (nat (- i)) else digitsOf (nat i))"

section \<open>How a call ends\<close>

text \<open>
  A Go call returns, or ends the process through \<open>log.Fatalf\<close> (which prints and calls
  \<open>os.Exit(1)\<close>), or panics (an index out of range, a nil dereference). Neither of the
  last two hands anything back to the caller.
\<close>

datatype 'a run = Returns 'a | Exits | Panics

datatype error = TransportError | ReadError | DecodeError | SyntaxError

section \<open>The report\<close>

text \<open>
  Modelled from the spec: \<open>ReportDataRecord\<close>, \<open>ReportDataField\<close> with its \<open>Records\<close>,
  the type \<open>Severity\<close> with its constants and the status markers are declared in a file
  of the package that is not among the sources. The spec gives a record the attributes
  \<open>{id, url, title, sig, notes[]}\<close> and \<open>{id, status, severity, highlight, title, url,
  notes[]}\<close>, and the severity the ordinals None = 0, Light = 1, Medium = 2, High = 3.
  A marker constant is kept as a token of its own, and a highlight is a sequence of
  markers: \<open>strings.Repeat\<close> and \<open>+=\<close> are \<^const>\<open>replicate\<close> and \<^const>\<open>append\<close>.
\<close>

type_synonym Severity = int

definition LightSeverity :: Severity where "LightSeverity = 1"
definition MediumSeverity :: Severity where "MediumSeverity = 2"
definition HighSeverity :: Severity where "HighSeverity = 3"

datatype marker =
  statusFailingEmoji | statusFlakyEmoji | statusNewTestEmoji | statusOldEmoji | statusNewEmoji

record ReportDataRecord =
  rec_URL :: string
  rec_ID :: int
  rec_Title :: string
  rec_Sig :: string
  rec_Notes :: "string list"
  rec_Status :: string
  rec_Severity :: Severity
  rec_Highlight :: "marker list"

text \<open>The zero value of the struct, as \<open>ReportDataRecord{}\<close> gives it.\<close>

definition zeroRecord :: ReportDataRecord where
  "zeroRecord = \<lparr>rec_URL = [], rec_ID = 0, rec_Title = [], rec_Sig = [], rec_Notes = [],
     rec_Status = [], rec_Severity = 0, rec_Highlight = []\<rparr>"

record ReportDataField =
  fld_Emoji :: string
  fld_Title :: string
  fld_Records :: "ReportDataRecord list"

section \<open>Testgrid\<close>

type_synonym OverallStatus = string

definition Total :: OverallStatus where "Total = ''TOTAL''"
definition Failing :: OverallStatus where "Failing = ''FAILING''"
definition Flaky :: OverallStatus where "Flaky = ''FLAKY''"
definition Passing :: OverallStatus where "Passing = ''PASSING''"
definition Stale :: OverallStatus where "Stale = ''STALE''"

definition testgridReportSummary :: int where "testgridReportSummary = 0"
definition testgridReportDetails :: int where "testgridReportDetails = 1"

text \<open>
  \<open>TestgridValue\<close>, with the fields the reporter reads: the overall status, the status
  text and the names of the failing tests. \<open>TestgridData\<close> is a Go map from job names to
  values; it is kept as the list of its entries in the order one \<open>range\<close> loop visits
  them, which Go leaves open.
\<close>

record TestgridValue =
  tv_OverallStatus :: OverallStatus
  tv_Status :: string
  tv_Tests :: "string list"

type_synonym TestgridData = "(string \<times> TestgridValue) list"

record testgridJob =
  job_OutputName :: string
  job_URLName :: string
  job_Emoji :: string

subsection \<open>getSummary\<close>

text \<open>
  The map \<open>statuses\<close> is read with index expressions only, which give 0 for a missing
  key: it is a total function. \<open>countStatus\<close> is the body of the loop over the jobs.
\<close>

definition countStatus :: "TestgridValue \<Rightarrow> (OverallStatus \<Rightarrow> int) \<Rightarrow> (OverallStatus \<Rightarrow> int)" where
  "countStatus v statuses =
     (if tv_OverallStatus v = Passing then statuses(Passing := statuses Passing + 1)
      else if tv_OverallStatus v = Failing then statuses(Failing := statuses Failing + 1)
      else if tv_OverallStatus v = Flaky then statuses(Flaky := statuses Flaky + 1)
      else statuses(Stale := statuses Stale + 1))"

fun countStatuses :: "TestgridData \<Rightarrow> (OverallStatus \<Rightarrow> int) \<Rightarrow> (OverallStatus \<Rightarrow> int)" where
  "countStatuses [] statuses = statuses"
| "countStatuses ((name, v) # jobs) statuses = countStatuses jobs (countStatus v statuses)"

definition initialStatuses :: "TestgridData \<Rightarrow> (OverallStatus \<Rightarrow> int)" where
  "initialStatuses jobs =
     (\<lambda>_. 0)(Total := int (length jobs), Passing := 0, Failing := 0, Flaky := 0, Stale := 0)"

definition jobsLine :: "(OverallStatus \<Rightarrow> int) \<Rightarrow> OverallStatus \<Rightarrow> string" where
  "jobsLine statuses s = fmt_d (statuses s) @ '' jobs '' @ strings_ToLower s"

definition getSummary :: "TestgridData \<Rightarrow> ReportDataRecord" where
  "getSummary jobs =
     (let statuses = countStatuses jobs (initialStatuses jobs);
          notes = [jobsLine statuses Total, jobsLine statuses Passing,
                   jobsLine statuses Flaky, jobsLine statuses Failing];
          notes = (if statuses Stale \<noteq> 0 then notes @ [jobsLine statuses Stale] else notes)
      in zeroRecord\<lparr>rec_ID := testgridReportSummary, rec_Notes := notes\<rparr>)"

subsection \<open>getDetails\<close>

text \<open>
  \<open>regexp.MustCompile(`sig-[a-zA-Z]+`).FindAllString(s, -1)\<close>: the matches from the left,
  none overlapping another, each as long as it can be.
\<close>

definition isLetter :: "char \<Rightarrow> bool" where
  "isLetter c = (isLower c \<or> isUpper c)"

function findAllSigs :: "string \<Rightarrow> string list" where
  "findAllSigs s =
     (if s = [] then []
      else if prefix ''sig-'' s \<and> takeWhile isLetter (drop 4 s) \<noteq> []
        then (''sig-'' @ takeWhile isLetter (drop 4 s)) # findAllSigs (dropWhile isLetter (drop 4 s))
      else findAllSigs (tl s))"
  by pat_completeness auto
termination
proof (relation "measure length")
  fix s :: string
  assume "s \<noteq> []"
  have "length (dropWhile isLetter (drop 4 s)) \<le> length (drop 4 s)"
    by (rule length_dropWhile_le)
  moreover assume "prefix ''sig-'' s \<and> takeWhile isLetter (drop 4 s) \<noteq> []"
  then have "drop 4 s \<noteq> []" by auto
  ultimately show "(dropWhile isLetter (drop 4 s), s) \<in> measure length" by auto
qed auto

declare findAllSigs.simps [simp del]

text \<open>
  The keys of the map \<open>sigsInvolved\<close>: every SIG named by a test, once. Go leaves the order
  of \<open>MapKeys\<close> open; the model lists the keys in the order they are first met. \<open>%v\<close>
  prints them between brackets, separated by one space.
\<close>

definition sigsInvolved :: "string list \<Rightarrow> string list" where
  "sigsInvolved tests = remdups (concat (map findAllSigs tests))"

fun joinSpace :: "string list \<Rightarrow> string" where
  "joinSpace [] = []"
| "joinSpace [x] = x"
| "joinSpace (x # y # xs) = x @ '' '' @ joinSpace (y # xs)"

definition fmt_v :: "string list \<Rightarrow> string" where
  "fmt_v xs = ''['' @ joinSpace xs @ '']''"

text \<open>
  The regular expression \<open>(?P<passes>\d{1,2})\sof\s(?P<runs>\d{1,2})\<close> of \<open>getDetails\<close>.
  \<open>\d\<close> is an ASCII digit and \<open>\s\<close> one of tab, newline, form feed, carriage return and
  space. \<open>digits12\<close> is the greedy \<open>\d{1,2}\<close>: it gives the digits and the rest. After two
  digits that are not followed by white space, one digit cannot match either (a digit
  follows it), so a start position has at most one way to match. \<open>findRecent\<close> is
  \<open>FindStringSubmatch\<close>: the match at the leftmost position that has one.
\<close>

definition isSpace :: "char \<Rightarrow> bool" where
  "isSpace c = (c = CHR 0x09 \<or> c = CHR 0x0A \<or> c = CHR 0x0C \<or> c = CHR 0x0D \<or> c = CHR '' '')"

fun digits12 :: "string \<Rightarrow> (string \<times> string) option" where
  "digits12 (a # b # s) =
     (if isDigit a then (if isDigit b then Some ([a, b], s) else Some ([a], b # s)) else None)"
| "digits12 [a] = (if isDigit a then Some ([a], []) else None)"
| "digits12 [] = None"

fun matchRecent :: "string \<Rightarrow> (string \<times> string) option" where
  "matchRecent s =
     (case digits12 s of
        Some (passes, c1 # o1 # f1 # c2 # s') \<Rightarrow>
          (if isSpace c1 \<and> o1 = CHR ''o'' \<and> f1 = CHR ''f'' \<and> isSpace c2
           then (case digits12 s' of Some (runs, _) \<Rightarrow> Some (passes, runs) | None \<Rightarrow> None)
           else None)
      | _ \<Rightarrow> None)"

fun findRecent :: "string \<Rightarrow> (string \<times> string) option" where
  "findRecent [] = matchRecent []"
| "findRecent (c # s) =
     (case matchRecent (c # s) of Some m \<Rightarrow> Some m | None \<Rightarrow> findRecent s)"

text \<open>
  \<open>getRegexParams\<close> with that expression: a map from the two group names to the matched
  text, empty when nothing matches. The map is read with index expressions only, which
  give the empty string for a missing key.
\<close>

definition testgridRegexRecentRuns :: string where "testgridRegexRecentRuns = ''runs''"
definition testgridRegexRecentPasses :: string where "testgridRegexRecentPasses = ''passes''"

definition getRegexParams :: "string \<Rightarrow> (string \<Rightarrow> string)" where
  "getRegexParams s =
     (case findRecent s of
        None \<Rightarrow> (\<lambda>_. [])
      | Some (passes, runs) \<Rightarrow>
          (\<lambda>_. [])(testgridRegexRecentPasses := passes, testgridRegexRecentRuns := runs))"

text \<open>
  \<open>float64\<close>. \<open>getDetails\<close> applies \<open>strconv.ParseFloat\<close> to a matched group (one or two
  digits) or to the empty string of a missing key: the first is the number, exactly, the
  second an error, which \<open>getDetails\<close> prints and ignores, with the value 0. The quotient
  of passes and runs is read only when \<open>runs > 5\<close>, so its operands are integers from 0 to
  99 and its divisor is at least 6. IEEE division rounds the exact quotient to the
  nearest double, 0.5 is a double, and the constant 0.8 is the double nearest to 4/5; a
  quotient \<open>p/r\<close> with \<open>r \<le> 99\<close> that is not 1/2 (not 4/5) is further from it than any
  rounding error. So each comparison of the code has the outcome of the same comparison
  on exact rationals, which is what the model computes. Where Go's quotient is NaN or
  infinite (\<open>runs = 0\<close>) the model's is 0; it is not read there.
\<close>

type_synonym float64 = rat

fun decimalOf :: "string \<Rightarrow> nat \<Rightarrow> nat" where
  "decimalOf [] acc = acc"
| "decimalOf (c # s) acc = decimalOf s (10 * acc + (of_char c - 48))"

definition strconv_ParseFloat :: "string \<Rightarrow> float64 \<times> error option" where
  "strconv_ParseFloat s =
     (if s \<noteq> [] \<and> list_all isDigit s then (of_nat (decimalOf s 0), None)
      else (0, Some SyntaxError))"

definition thresholdWarning :: float64 where "thresholdWarning = 5 / 10"
definition thresholdInfo :: float64 where "thresholdInfo = 8 / 10"
definition newTestThreshhold :: float64 where "newTestThreshhold = 5"

definition recentPasses :: "TestgridValue \<Rightarrow> float64" where
  "recentPasses jobData =
     fst (strconv_ParseFloat (getRegexParams (tv_Status jobData) testgridRegexRecentPasses))"

definition recentRuns :: "TestgridValue \<Rightarrow> float64" where
  "recentRuns jobData =
     fst (strconv_ParseFloat (getRegexParams (tv_Status jobData) testgridRegexRecentRuns))"

definition getDetails :: "string \<Rightarrow> TestgridValue \<Rightarrow> string \<Rightarrow> bool \<Rightarrow> ReportDataRecord" where
  "getDetails jobName jobData jobBaseUrl emojisOff =
     (let result = zeroRecord\<lparr>rec_ID := testgridReportDetails,
            rec_Status := tv_OverallStatus jobData,
            rec_Title := jobName,
            rec_URL := jobBaseUrl @ ''#'' @ jobName\<rparr>;
          result =
            (if tv_OverallStatus jobData = Failing
             then result\<lparr>rec_Notes := rec_Notes result @
                    [''Sig's involved '' @ fmt_v (sigsInvolved (tv_Tests jobData)),
                     ''Currently '' @ fmt_d (int (length (tv_Tests jobData))) @ '' test are failing'']\<rparr>
             else result);
          latestExec = getRegexParams (tv_Status jobData);
          testgridRegexRecentPassesFloat = recentPasses jobData;
          testgridRegexRecentRunsFloat = recentRuns jobData;
          highlightEmoji =
            (if tv_OverallStatus jobData = Failing then statusFailingEmoji else statusFlakyEmoji);
          recentSuccessRate = testgridRegexRecentPassesFloat / testgridRegexRecentRunsFloat;
          (severity, highlightEmoji) =
            (if testgridRegexRecentRunsFloat \<le> newTestThreshhold
             then (LightSeverity, statusNewTestEmoji)
             else if recentSuccessRate \<le> thresholdWarning then (HighSeverity, highlightEmoji)
             else if recentSuccessRate \<le> thresholdInfo then (MediumSeverity, highlightEmoji)
             else (LightSeverity, highlightEmoji))
      in result\<lparr>rec_Severity := severity,
           rec_Highlight := replicate (nat severity) highlightEmoji,
           rec_Notes := rec_Notes result @
             [latestExec testgridRegexRecentPasses @ '' of '' @ latestExec testgridRegexRecentRuns
                @ '' passed recently'']\<rparr>)"

subsection \<open>assembleTestgridRequests\<close>

text \<open>
  The flags of \<open>meta.Flags\<close> that the reporters read. \<open>reqTestgridSiteData\<close> fetches the
  summary document of a dashboard: \<open>site\<close> stands for the HTTP request, the reading of the
  body and its decoding, and gives the error of the step that failed.
\<close>

record Flags =
  ShortOn :: bool
  EmojisOff :: bool

definition reqTestgridSiteData ::
  "(string \<Rightarrow> error + TestgridData) \<Rightarrow> testgridJob \<Rightarrow> string \<Rightarrow> error + TestgridData" where
  "reqTestgridSiteData site job jobBaseUrl = site (jobBaseUrl @ ''/summary'')"

text \<open>The loop over the jobs of one dashboard, which appends a detail record per job.\<close>

fun appendDetails ::
  "string \<Rightarrow> bool \<Rightarrow> ReportDataRecord list \<Rightarrow> TestgridData \<Rightarrow> ReportDataRecord list" where
  "appendDetails jobBaseUrl emojisOff records [] = records"
| "appendDetails jobBaseUrl emojisOff records ((jobName, jobData) # jobsData) =
     appendDetails jobBaseUrl emojisOff
       (if tv_OverallStatus jobData \<noteq> Passing
        then records @ [getDetails jobName jobData jobBaseUrl emojisOff]
        else records)
       jobsData"

definition jobBaseUrlOf :: "testgridJob \<Rightarrow> string" where
  "jobBaseUrlOf job = ''https://testgrid.k8s.io/'' @ job_URLName job"

text \<open>
  The goroutine of one dashboard: what it sends on the channel, or the end of the process
  when the fetch fails (\<open>log.Fatalf\<close>).
\<close>

definition dashboardWorker ::
  "Flags \<Rightarrow> (string \<Rightarrow> error + TestgridData) \<Rightarrow> testgridJob \<Rightarrow> ReportDataField run" where
  "dashboardWorker flags site job =
     (let jobBaseUrl = jobBaseUrlOf job in
      case reqTestgridSiteData site job jobBaseUrl of
        Inl err \<Rightarrow> Exits
      | Inr jobsData \<Rightarrow>
          (let records = [getSummary jobsData];
               records =
                 (if \<not> ShortOn flags
                  then appendDetails jobBaseUrl (EmojisOff flags) records jobsData
                  else records)
           in Returns \<lparr>fld_Emoji = job_Emoji job, fld_Title = job_OutputName job,
                fld_Records = records\<rparr>))"

text \<open>
  One goroutine per dashboard, all sending on one channel. The fields are listed in the
  order of the dashboards; the order of arrival is open. A failed fetch ends the process.
\<close>

fun assembleTestgridRequests ::
  "Flags \<Rightarrow> (string \<Rightarrow> error + TestgridData) \<Rightarrow> testgridJob list \<Rightarrow> ReportDataField list run" where
  "assembleTestgridRequests flags site [] = Returns []"
| "assembleTestgridRequests flags site (j # requiredJobs) =
     (case dashboardWorker flags site j of
        Returns f \<Rightarrow>
          (case assembleTestgridRequests flags site requiredJobs of
             Returns fs \<Rightarrow> Returns (f # fs)
           | Exits \<Rightarrow> Exits
           | Panics \<Rightarrow> Panics)
      | Exits \<Rightarrow> Exits
      | Panics \<Rightarrow> Panics)"

subsection \<open>The status buckets, in the words of the specification\<close>

text \<open>
  The specification counts the jobs of a dashboard by status bucket: Passing, Flaky and
  Failing hold the jobs of that status, Stale holds every job of any other status, and
  Total holds every job. These two definitions follow its words, not the code.
\<close>

definition spec_bucket :: "TestgridValue \<Rightarrow> OverallStatus" where
  "spec_bucket v =
     (if tv_OverallStatus v = Passing \<or> tv_OverallStatus v = Failing \<or> tv_OverallStatus v = Flaky
      then tv_OverallStatus v else Stale)"

definition spec_count :: "OverallStatus \<Rightarrow> TestgridData \<Rightarrow> int" where
  "spec_count b jobs =
     (if b = Total then int (length jobs)
      else int (length (filter (\<lambda>(name, v). spec_bucket v = b) jobs)))"

section \<open>The issue path\<close>

text \<open>
  A GitHub issue as the reporter decodes it. \<open>int64\<close> numbers are kept as integers: they
  are compared, used as keys and printed, never computed with. \<open>Milestone\<close> is a pointer
  that may be nil. \<open>GithubIssuesAfterId\<close> is a Go map from issue numbers to issues.
\<close>

record Label =
  lbl_Name :: string
  lbl_Color :: string

record Milestone =
  ms_Title :: string

record GithubIssueElement =
  gi_HTMLURL :: string
  gi_Number :: int
  gi_Title :: string
  gi_Labels :: "Label list"
  gi_State :: string
  gi_Milestone :: "Milestone option"
  gi_Comments :: int
  gi_CreatedAt :: string
  gi_UpdatedAt :: string
  gi_ClosedAt :: string

type_synonym GithubIssues = "GithubIssueElement list"

type_synonym GithubIssuesAfterId = "int \<rightharpoonup> GithubIssueElement"

subsection \<open>filterGithubIssues\<close>

text \<open>The inner loop over the labels of one issue, which narrows the flag \<open>fine\<close>.\<close>

fun labelsFine :: "bool \<Rightarrow> Label list \<Rightarrow> bool" where
  "labelsFine fine [] = fine"
| "labelsFine fine (label # labels) =
     (let fine = (fine \<and> \<not> strings_Contains (lbl_Name label) ''priority/backlog'');
          fine = (fine \<and> \<not> strings_Contains (lbl_Name label) ''triage/accepted'');
          fine = (fine \<and> \<not> strings_Contains (lbl_Name label) ''lifecycle/rotten'');
          fine = (fine \<and> \<not> strings_Contains (lbl_Name label) ''lifecycle/stale'')
      in labelsFine fine labels)"

fun filterLoop :: "GithubIssuesAfterId \<Rightarrow> GithubIssues \<Rightarrow> GithubIssuesAfterId" where
  "filterLoop filteredIssues [] = filteredIssues"
| "filterLoop filteredIssues (i # issues) =
     (let fine = labelsFine True (gi_Labels i);
          fine = (fine \<and> \<not> strings_Contains (gi_HTMLURL i) ''pull'')
      in filterLoop (if fine then filteredIssues(gi_Number i \<mapsto> i) else filteredIssues) issues)"

definition filterGithubIssues :: "GithubIssues \<Rightarrow> GithubIssuesAfterId" where
  "filterGithubIssues issues = filterLoop Map.empty issues"

text \<open>
  The exclusion policy in the words of the specification: an issue is excluded when one
  of its labels matches one of the four names, or its URL shows a pull request. A label
  matches a name when it contains it, and a URL shows a pull request when it contains
  \<open>pull\<close>, which is how the reporter reads both.
\<close>

definition spec_excluded :: "GithubIssueElement \<Rightarrow> bool" where
  "spec_excluded i =
     (list_ex (\<lambda>label.
         list_ex (\<lambda>name. strings_Contains (lbl_Name label) name)
           [''priority/backlog'', ''triage/accepted'', ''lifecycle/rotten'', ''lifecycle/stale''])
        (gi_Labels i)
      \<or> strings_Contains (gi_HTMLURL i) ''pull'')"

text \<open>An issue with a number, a URL and labels, everything else empty: for examples.\<close>

definition issueWith :: "int \<Rightarrow> string \<Rightarrow> string list \<Rightarrow> GithubIssueElement" where
  "issueWith n url labels =
     \<lparr>gi_HTMLURL = url, gi_Number = n, gi_Title = [],
      gi_Labels = map (\<lambda>name. \<lparr>lbl_Name = name, lbl_Color = []\<rparr>) labels,
      gi_State = ''open'', gi_Milestone = None, gi_Comments = 0,
      gi_CreatedAt = [], gi_UpdatedAt = [], gi_ClosedAt = []\<rparr>"

subsection \<open>requestGithubIssues\<close>

text \<open>
  The service: for the URL of a request, the decoded list of issues, or the error of the
  step that failed (creating or sending the request, reading the body, decoding it).
\<close>

type_synonym server = "string \<Rightarrow> error + GithubIssues"

definition IssueReqParamPage :: string where "IssueReqParamPage = ''page''"

text \<open>\<open>fmt.Sprintf("%s&%s=%d", url, string(IssueReqParamPage), page)\<close>.\<close>

definition withPage :: "string \<Rightarrow> int \<Rightarrow> string" where
  "withPage url page = url @ ''&'' @ IssueReqParamPage @ ''='' @ fmt_d page"

text \<open>
  One call of \<open>requestGithubIssues\<close> with the calls it starts. Each call appends the page
  parameter to the URL it was given and hands the longer URL on to the next call, so the
  request of page 2 ends in \<open>&page=1&page=2\<close>. A call starts the next one only after it has
  decoded its own page, so the requests are issued in the order of the pages, whatever
  the scheduler does. An error ends the process (\<open>log.Fatalf\<close>). The result lists the URLs
  requested and the maps sent on the channel, both in the order of the pages; the order
  in which the maps arrive is open. A service that never sends an empty page keeps the
  calls going for ever: the function then has no value (\<open>None\<close>).
\<close>

partial_function (option) requestGithubIssues ::
  "server \<Rightarrow> string \<Rightarrow> int \<Rightarrow> (string list \<times> GithubIssuesAfterId list) run option" where
  "requestGithubIssues serve url page =
     (let url = withPage url page in
      case serve url of
        Inl err \<Rightarrow> Some Exits
      | Inr requestedIssues \<Rightarrow>
          if length requestedIssues \<noteq> 0
          then Option.bind (requestGithubIssues serve url (page + 1))
                 (\<lambda>later. Some (case later of
                     Returns (requests, sent) \<Rightarrow>
                       Returns (url # requests, filterGithubIssues requestedIssues # sent)
                   | Exits \<Rightarrow> Exits
                   | Panics \<Rightarrow> Panics))
          else Some (Returns ([url], [filterGithubIssues requestedIssues])))"

definition assembleGithubIssues ::
  "server \<Rightarrow> string \<Rightarrow> (string list \<times> GithubIssuesAfterId list) run option" where
  "assembleGithubIssues serve url = requestGithubIssues serve url 1"

text \<open>
  The URL of the \<open>k\<close>-th request after the first of a chain of calls that starts with
  \<open>url\<close> and \<open>page\<close>.
\<close>

fun requestUrl :: "string \<Rightarrow> int \<Rightarrow> nat \<Rightarrow> string" where
  "requestUrl url page 0 = withPage url page"
| "requestUrl url page (Suc k) = requestUrl (withPage url page) (page + 1) k"

text \<open>
  A result set of \<open>items\<close> served in pages of \<open>perPage\<close> items. The service reads the page
  number from the end of the URL, where the last page parameter stands: a parameter given
  twice counts with its last value. Page \<open>n\<close> holds the items from \<open>(n - 1) * perPage\<close> on,
  at most \<open>perPage\<close> of them; a page past the end is empty.
\<close>

definition lastPageParam :: "string \<Rightarrow> nat" where
  "lastPageParam url = decimalOf (rev (takeWhile isDigit (rev url))) 0"

definition pagedServer :: "GithubIssues \<Rightarrow> nat \<Rightarrow> server" where
  "pagedServer items perPage url =
     Inr (take perPage (drop ((lastPageParam url - 1) * perPage) items))"

subsection \<open>checkTimeBefore and the age highlight\<close>

text \<open>
  \<open>time.Time\<close>, in UTC. A time is kept as the arguments of the call of \<open>time.Date\<close> that
  makes it: year, month, day, hour, minute, second, nanosecond. \<open>time.Date\<close> accepts
  values outside their usual ranges and normalises them (October 32 is November 1, month
  0 is December of the year before); \<open>instant\<close> is the instant it computes, in nanoseconds
  since January 1 of year 1, in the proleptic Gregorian calendar. A time read from the
  clock is in normal form (\<open>validTime\<close>). The zone of the clock is taken to be UTC, the
  zone of the times GitHub sends.
\<close>

record Time =
  t_year :: int
  t_month :: int
  t_day :: int
  t_hour :: int
  t_min :: int
  t_sec :: int
  t_nsec :: int

definition isLeap :: "int \<Rightarrow> bool" where
  "isLeap year = (year mod 4 = 0 \<and> (year mod 100 \<noteq> 0 \<or> year mod 400 = 0))"

definition daysBefore :: "int \<Rightarrow> int" where
  "daysBefore m = [0, 31, 59, 90, 120, 151, 181, 212, 243, 273, 304, 334, 365] ! nat m"

definition daysIn :: "int \<Rightarrow> int \<Rightarrow> int" where
  "daysIn m year =
     (if m = 2 \<and> isLeap year then 29 else daysBefore m - daysBefore (m - 1))"

definition daysSinceEpoch :: "int \<Rightarrow> int" where
  "daysSinceEpoch year =
     365 * (year - 1) + (year - 1) div 4 - (year - 1) div 100 + (year - 1) div 400"

text \<open>
  The number of days from January 1 of year 1 to the given day, as \<open>time.Date\<close> counts
  them: the month overflows into the year, and the day is added to the start of the
  month, whatever its size.
\<close>

definition absDays :: "int \<Rightarrow> int \<Rightarrow> int \<Rightarrow> int" where
  "absDays year month day =
     (let m = month - 1;
          year = year + m div 12;
          m = m mod 12;
          month = m + 1;
          d = daysSinceEpoch year;
          d = d + daysBefore (month - 1);
          d = (if isLeap year \<and> month \<ge> 3 then d + 1 else d)
      in d + (day - 1))"

definition instant :: "Time \<Rightarrow> int" where
  "instant t =
     ((absDays (t_year t) (t_month t) (t_day t) * 86400
        + (t_hour t * 3600 + t_min t * 60 + t_sec t)) * 1000000000 + t_nsec t)"

definition validTime :: "Time \<Rightarrow> bool" where
  "validTime t =
     (1 \<le> t_month t \<and> t_month t \<le> 12 \<and> 1 \<le> t_day t \<and> t_day t \<le> daysIn (t_month t) (t_year t)
      \<and> 0 \<le> t_hour t \<and> t_hour t < 24 \<and> 0 \<le> t_min t \<and> t_min t < 60
      \<and> 0 \<le> t_sec t \<and> t_sec t < 60 \<and> 0 \<le> t_nsec t \<and> t_nsec t < 1000000000)"

text \<open>
  \<open>t.AddDate(years, months, days)\<close> is \<open>Date(year + years, month + months, day + days, ...)\<close>
  on the date and the clock of \<open>t\<close>. The reporter applies it to the time of the clock.
\<close>

definition AddDate :: "Time \<Rightarrow> int \<Rightarrow> int \<Rightarrow> int \<Rightarrow> Time" where
  "AddDate t years months days =
     t\<lparr>t_year := t_year t + years, t_month := t_month t + months, t_day := t_day t + days\<rparr>"



definition zeroTime :: Time where
  "zeroTime = \<lparr>t_year = 1, t_month = 1, t_day = 1, t_hour = 0, t_min = 0, t_sec = 0, t_nsec = 0\<rparr>"

definition Before :: "Time \<Rightarrow> Time \<Rightarrow> bool" where
  "Before t u = (instant t < instant u)"

text \<open>
  \<open>parse\<close> stands for \<open>time.Parse\<close> of the standard library. \<open>checkTimeBefore\<close> drops its
  error and goes on with the time it returns, which is the zero time after an error.
\<close>

definition parsedOrZero :: "(string \<Rightarrow> string \<Rightarrow> error + Time) \<Rightarrow> string \<Rightarrow> string \<Rightarrow> Time" where
  "parsedOrZero parse layout s = (case parse layout s of Inl err \<Rightarrow> zeroTime | Inr t \<Rightarrow> t)"

definition checkTimeBefore :: "(string \<Rightarrow> string \<Rightarrow> error + Time) \<Rightarrow> string \<Rightarrow> Time \<Rightarrow> bool" where
  "checkTimeBefore parse s u =
     (let layout = ''2006-01-02T15:04:05Z'';
          t = parsedOrZero parse layout s
      in Before t u)"

text \<open>
  The highlight of an issue, as the goroutine of \<open>transformIntoReportData\<close> computes it.
  \<open>time.Now()\<close> is called twice: \<open>now\<close> is the first reading of the clock, \<open>now'\<close> the
  second.
\<close>

definition issueHighlight ::
  "(string \<Rightarrow> string \<Rightarrow> error + Time) \<Rightarrow> string \<Rightarrow> Time \<Rightarrow> Time \<Rightarrow> marker list" where
  "issueHighlight parse createdAt now now' =
     (let highlight = [];
          highlight = (if checkTimeBefore parse createdAt (AddDate now 0 (- 3) 0)
                       then highlight @ [statusOldEmoji] else highlight);
          highlight = (if \<not> checkTimeBefore parse createdAt (AddDate now' 0 0 (- 5))
                       then highlight @ [statusNewEmoji] else highlight)
      in highlight)"

section \<open>The card path\<close>

subsection \<open>findCardsID\<close>

text \<open>
  A column of the project board as go-github decodes it: the identifier and the name are
  pointers that may be nil, and \<open>GetID\<close> gives 0 for a nil identifier. The identifiers are
  \<open>int64\<close>; they are only compared, so they are kept as integers. The slice of columns
  that the client returns holds no nil pointer.
\<close>

record ProjectColumn =
  pc_ID :: "int option"
  pc_Name :: "string option"

definition GetID :: "ProjectColumn \<Rightarrow> int" where
  "GetID c = (case pc_ID c of None \<Rightarrow> 0 | Some n \<Rightarrow> n)"

definition githubCiSignalBoardProjectID :: int where
  "githubCiSignalBoardProjectID = 2093513"

text \<open>
  \<open>findCardsID\<close>. \<open>listColumns\<close> stands for \<open>client.Projects.ListProjectColumns\<close>. The columns
  named by the keyword are sorted by identifier (\<open>sort.Slice\<close>, of which only the first
  element is read) and the identifier of the first is returned, with the nil error of the
  listing. Indexing the empty slice panics.
\<close>

definition findCardsID ::
  "(int \<Rightarrow> error + ProjectColumn list) \<Rightarrow> int \<Rightarrow> string \<Rightarrow> (int \<times> error option) run" where
  "findCardsID listColumns projectID keyword =
     (case listColumns projectID of
        Inl err \<Rightarrow> Returns (0, Some err)
      | Inr cards \<Rightarrow>
          (let resolvedColumns =
                 filter (\<lambda>v. case pc_Name v of None \<Rightarrow> False | Some n \<Rightarrow> n = keyword) cards;
               resolvedColumns = sort_key GetID resolvedColumns
           in case resolvedColumns of
                [] \<Rightarrow> Panics
              | first # _ \<Rightarrow> Returns (GetID first, None)))"

subsection \<open>requestGhIssueDetail\<close>

text \<open>
  The detail of an issue as the card path decodes it. The name of a go-github label is a
  pointer, which \<open>assembleCardRequests\<close> dereferences.
\<close>

record ghIssueDetail =
  gd_Number :: int
  gd_HTMLURL :: string
  gd_Title :: string
  gd_Labels :: "string option list"

definition zeroDetail :: ghIssueDetail where
  "zeroDetail = \<lparr>gd_Number = 0, gd_HTMLURL = [], gd_Title = [], gd_Labels = []\<rparr>"

record ghIssueOverview =
  ov_URL :: string
  ov_ID :: int
  ov_Title :: string
  ov_Sig :: string

text \<open>
  What a request for a content URL meets: the request cannot be built; it cannot be sent
  and there is no response (\<open>client.Do\<close> gives an error and a nil response); it is refused
  on a redirect, where \<open>client.Do\<close> gives an error and a response whose body is closed; the
  body cannot be read; the body does not decode; or the issue arrives.
\<close>

datatype answer =
  NoRequest | NoResponse | ClosedResponse | NoBody | Undecodable | Detail ghIssueDetail

text \<open>
  \<open>requestGhIssueDetail\<close>. After an error of \<open>client.Do\<close> the function logs and goes on to
  \<open>defer resp.Body.Close()\<close>, which reads the field \<open>Body\<close> of the response: with no
  response this is a nil dereference, a panic. With the closed body of a refused redirect
  the reading of the body fails and the function returns that error.
\<close>

definition requestGhIssueDetail ::
  "(string \<Rightarrow> string \<Rightarrow> answer) \<Rightarrow> string \<Rightarrow> string \<Rightarrow> (ghIssueDetail \<times> error option) run" where
  "requestGhIssueDetail web url authToken =
     (case web url authToken of
        NoRequest \<Rightarrow> Returns (zeroDetail, Some TransportError)
      | NoResponse \<Rightarrow> Panics
      | ClosedResponse \<Rightarrow> Returns (zeroDetail, Some ReadError)
      | NoBody \<Rightarrow> Returns (zeroDetail, Some ReadError)
      | Undecodable \<Rightarrow> Returns (zeroDetail, Some DecodeError)
      | Detail result \<Rightarrow> Returns (result, None))"

subsection \<open>assembleCardRequests\<close>

text \<open>
  The loop over the labels of an issue: the first label that contains \<open>sig/\<close> sets the SIG
  and ends the loop. A label with a nil name panics when the loop reaches it.
\<close>

fun sigOfLabels :: "string \<Rightarrow> string option list \<Rightarrow> string run" where
  "sigOfLabels sig [] = Returns sig"
| "sigOfLabels sig (None # labels) = Panics"
| "sigOfLabels sig (Some name # labels) =
     (if strings_Contains name ''sig/''
      then (let sig = strings_Title (strings_Remove name ''sig/'');
                sig = (if strings_EqualFold sig ''cli'' then strings_ToUpper sig else sig);
                sig = (if strings_EqualFold sig ''cluster-lifecycle'' then strings_ToLower sig
                       else sig)
            in Returns sig)
      else sigOfLabels sig labels)"

record ProjectCard =
  card_ContentURL :: "string option"

text \<open>
  The goroutine of one card: the URLs it requests and the overviews it sends. An error
  that \<open>requestGhIssueDetail\<close> returns is logged, and the overview of the zero detail is
  sent all the same.
\<close>

definition cardWorker ::
  "(string \<Rightarrow> string \<Rightarrow> answer) \<Rightarrow> string \<Rightarrow> ProjectCard \<Rightarrow> (string list \<times> ghIssueOverview list) run" where
  "cardWorker web token projectCard =
     (case card_ContentURL projectCard of
        None \<Rightarrow> Returns ([], [])
      | Some contentURL \<Rightarrow>
          (case requestGhIssueDetail web contentURL token of
             Returns (issueDetail, err) \<Rightarrow>
               (case sigOfLabels [] (gd_Labels issueDetail) of
                  Returns sig \<Rightarrow>
                    Returns ([contentURL],
                      [\<lparr>ov_URL = gd_HTMLURL issueDetail, ov_ID = gd_Number issueDetail,
                        ov_Title = strings_Remove (gd_Title issueDetail) ''[Failing Test]'',
                        ov_Sig = sig\<rparr>])
                | Exits \<Rightarrow> Exits
                | Panics \<Rightarrow> Panics)
           | Exits \<Rightarrow> Exits
           | Panics \<Rightarrow> Panics))"

text \<open>
  The goroutines of the cards of a column, one after the other: the requests and the
  overviews in the order of the cards (the order of arrival is open). A panic in one
  goroutine ends the process.
\<close>

fun cardWorkers ::
  "(string \<Rightarrow> string \<Rightarrow> answer) \<Rightarrow> string \<Rightarrow> ProjectCard list \<Rightarrow> (string list \<times> ghIssueOverview list) run" where
  "cardWorkers web token [] = Returns ([], [])"
| "cardWorkers web token (projectCard # cards) =
     (case cardWorker web token projectCard of
        Returns (requests, sent) \<Rightarrow>
          (case cardWorkers web token cards of
             Returns (requests', sent') \<Rightarrow> Returns (requests @ requests', sent @ sent')
           | Exits \<Rightarrow> Exits
           | Panics \<Rightarrow> Panics)
      | Exits \<Rightarrow> Exits
      | Panics \<Rightarrow> Panics)"

text \<open>
  \<open>assembleCardRequests\<close>. \<open>listCards\<close> stands for \<open>client.Projects.ListProjectCards\<close>; when it
  fails the error is logged and the loop runs over the nil slice.
\<close>

definition assembleCardRequests ::
  "(int \<Rightarrow> error + ProjectCard list) \<Rightarrow> (string \<Rightarrow> string \<Rightarrow> answer) \<Rightarrow> string \<Rightarrow> int
     \<Rightarrow> (string list \<times> ghIssueOverview list) run" where
  "assembleCardRequests listCards web token cardsID =
     (let cards = (case listCards cardsID of Inl err \<Rightarrow> [] | Inr cards \<Rightarrow> cards)
      in cardWorkers web token cards)"

text \<open>
  The normal form of a SIG name in the words of the specification, the names compared
  without regard to the case of letters, as GitHub compares label names.
\<close>

definition spec_sigName :: "string \<Rightarrow> string" where
  "spec_sigName name =
     (if strings_EqualFold name ''cli'' then ''CLI''
      else if strings_EqualFold name ''cluster-lifecycle'' then ''cluster-lifecycle''
      else strings_Title name)"

section \<open>Properties of the testgrid reporter\<close>

lemma status_names_distinct:
  "Total \<noteq> Passing" "Total \<noteq> Failing" "Total \<noteq> Flaky" "Total \<noteq> Stale"
  "Passing \<noteq> Failing" "Passing \<noteq> Flaky" "Passing \<noteq> Stale"
  "Failing \<noteq> Flaky" "Failing \<noteq> Stale" "Flaky \<noteq> Stale"
  by (simp_all add: Total_def Passing_def Failing_def Flaky_def Stale_def)

lemma countStatus_bucket:
  "countStatus v st = st(spec_bucket v := st (spec_bucket v) + 1)"
  by (simp add: countStatus_def spec_bucket_def)

lemma spec_bucket_not_Total: "spec_bucket v \<noteq> Total"
  using status_names_distinct by (auto simp: spec_bucket_def)

lemma countStatuses_count:
  "countStatuses jobs st b =
     st b + int (length (filter (\<lambda>(name, v). spec_bucket v = b) jobs))"
proof (induction jobs arbitrary: st)
  case Nil
  show ?case by simp
next
  case (Cons j jobs)
  obtain name v where j: "j = (name, v)" by (cases j)
  show ?case
    unfolding j by (simp add: Cons.IH countStatus_bucket)
qed

lemma countStatuses_initial:
  assumes "b \<in> {Total, Passing, Flaky, Failing, Stale}"
  shows "countStatuses jobs (initialStatuses jobs) b = spec_count b jobs"
proof -
  have none: "filter (\<lambda>(name, v). spec_bucket v = Total) jobs = []"
    by (auto simp: filter_empty_conv spec_bucket_not_Total)
  from assms show ?thesis
    using status_names_distinct
    by (auto simp: countStatuses_count initialStatuses_def spec_count_def none)
qed

lemma lower_names:
  "strings_ToLower Total = ''total''" "strings_ToLower Passing = ''passing''"
  "strings_ToLower Flaky = ''flaky''" "strings_ToLower Failing = ''failing''"
  "strings_ToLower Stale = ''stale''"
  by code_simp+

lemma getSummary_lines:
  "getSummary jobs =
     zeroRecord\<lparr>rec_ID := testgridReportSummary,
       rec_Notes := map (\<lambda>b. fmt_d (spec_count b jobs) @ '' jobs '' @ strings_ToLower b)
         ([Total, Passing, Flaky, Failing] @ (if spec_count Stale jobs \<noteq> 0 then [Stale] else []))\<rparr>"
proof -
  have t: "countStatuses jobs (initialStatuses jobs) Total = spec_count Total jobs"
    by (rule countStatuses_initial) simp
  have p: "countStatuses jobs (initialStatuses jobs) Passing = spec_count Passing jobs"
    by (rule countStatuses_initial) simp
  have k: "countStatuses jobs (initialStatuses jobs) Flaky = spec_count Flaky jobs"
    by (rule countStatuses_initial) simp
  have f: "countStatuses jobs (initialStatuses jobs) Failing = spec_count Failing jobs"
    by (rule countStatuses_initial) simp
  have s: "countStatuses jobs (initialStatuses jobs) Stale = spec_count Stale jobs"
    by (rule countStatuses_initial) simp
  show ?thesis
    by (simp add: getSummary_def Let_def jobsLine_def t p k f s)
qed





lemma getDetails_sev:
  "rec_Severity (getDetails name v base eo) =
     (if recentRuns v \<le> 5 then LightSeverity
      else if recentPasses v / recentRuns v \<le> 1 / 2 then HighSeverity
      else if recentPasses v / recentRuns v \<le> 4 / 5 then MediumSeverity
      else LightSeverity)"
  by (simp add: getDetails_def Let_def zeroRecord_def thresholdWarning_def thresholdInfo_def
      newTestThreshhold_def)

lemma getDetails_hl:
  "rec_Highlight (getDetails name v base eo) =
     (if recentRuns v \<le> 5 then [statusNewTestEmoji]
      else replicate (nat (rec_Severity (getDetails name v base eo)))
             (if tv_OverallStatus v = Failing then statusFailingEmoji else statusFlakyEmoji))"
  by (simp add: getDetails_def Let_def zeroRecord_def thresholdWarning_def thresholdInfo_def
      newTestThreshhold_def LightSeverity_def)

lemma digits12_group:
  "digits12 s = Some (ds, rest) \<Longrightarrow> ds \<noteq> [] \<and> length ds \<le> 2 \<and> list_all isDigit ds"
  by (induction s rule: digits12.induct) (auto split: if_splits)

lemma matchRecent_groups:
  assumes "matchRecent s = Some (passes, runs)"
  shows "passes \<noteq> [] \<and> length passes \<le> 2 \<and> list_all isDigit passes
       \<and> runs \<noteq> [] \<and> length runs \<le> 2 \<and> list_all isDigit runs"
  using assms digits12_group
  by (auto split: option.splits prod.splits list.splits if_splits)

lemma findRecent_groups:
  "findRecent s = Some (passes, runs) \<Longrightarrow>
     passes \<noteq> [] \<and> length passes \<le> 2 \<and> list_all isDigit passes
       \<and> runs \<noteq> [] \<and> length runs \<le> 2 \<and> list_all isDigit runs"
proof (induction s)
  case Nil
  then show ?case using matchRecent_groups [of "[]" passes runs] by simp
next
  case (Cons c s)
  show ?case
  proof (cases "matchRecent (c # s)")
    case None
    with Cons show ?thesis by simp
  next
    case (Some m)
    with Cons.prems have "matchRecent (c # s) = Some (passes, runs)" by simp
    then show ?thesis by (rule matchRecent_groups)
  qed
qed

lemma digit_value: "isDigit c \<Longrightarrow> (of_char c :: nat) - 48 \<le> 9"
  by (auto simp: isDigit_def less_eq_char_def)

lemma decimalOf_two:
  assumes "length ds \<le> 2" and "list_all isDigit ds"
  shows "decimalOf ds 0 \<le> 99"
proof -
  consider "ds = []" | a where "ds = [a]" | a b where "ds = [a, b]"
    using assms(1) by (cases ds; cases "tl ds"; cases "tl (tl ds)") auto
  then show ?thesis
  proof cases
    case 1
    then show ?thesis by simp
  next
    case 2
    with assms(2) digit_value [of a] show ?thesis by simp
  next
    case 3
    with assms(2) digit_value [of a] digit_value [of b] show ?thesis by simp
  qed
qed

lemma parsed_counts_range:
  "(\<exists>p \<le> 99. recentPasses v = of_nat p) \<and> (\<exists>r \<le> 99. recentRuns v = of_nat r)"
proof (cases "findRecent (tv_Status v)")
  case None
  then have "recentPasses v = of_nat 0" "recentRuns v = of_nat 0"
    by (simp_all add: recentPasses_def recentRuns_def getRegexParams_def strconv_ParseFloat_def)
  then show ?thesis by blast
next
  case (Some m)
  obtain passes runs where m: "m = (passes, runs)" by (cases m)
  from findRecent_groups [of "tv_Status v" passes runs] Some m
  have g: "passes \<noteq> []" "length passes \<le> 2" "list_all isDigit passes"
    "runs \<noteq> []" "length runs \<le> 2" "list_all isDigit runs"
    by simp_all
  have "recentPasses v = of_nat (decimalOf passes 0)" "recentRuns v = of_nat (decimalOf runs 0)"
    using Some m g
    by (simp_all add: recentPasses_def recentRuns_def getRegexParams_def strconv_ParseFloat_def
        testgridRegexRecentPasses_def testgridRegexRecentRuns_def)
  with decimalOf_two [OF g(2,3)] decimalOf_two [OF g(5,6)] show ?thesis by blast
qed

text \<open>
  Claim C1. In the detail record of a job, with \<open>passes\<close> and \<open>runs\<close> the two numbers
  parsed from the status text: when \<open>runs \<le> 5\<close> the severity is Light and the highlight is
  the new-test marker, whatever \<open>passes\<close> is; otherwise, with \<open>rate = passes / runs\<close>, the
  severity is High when \<open>rate \<le> 0.5\<close>, Medium when \<open>0.5 < rate \<le> 0.8\<close> and Light when
  \<open>rate > 0.8\<close>, and the highlight does not hold the new-test marker. So 3 of 10 is High,
  9 of 10 is Light, and 3 runs are Light with the new-test marker. The two numbers are
  integers from 0 to 99, the range in which the comparisons of the model are those of
  \<open>float64\<close>.
\<close>

theorem getDetails_severity:
  fixes jobName :: string and jobData :: TestgridValue and jobBaseUrl :: string
    and emojisOff :: bool
  defines "r \<equiv> getDetails jobName jobData jobBaseUrl emojisOff"
      and "passes \<equiv> recentPasses jobData" and "runs \<equiv> recentRuns jobData"
  shows "(runs \<le> 5 \<longrightarrow> rec_Severity r = LightSeverity \<and> rec_Highlight r = [statusNewTestEmoji])
       \<and> (5 < runs \<and> passes / runs \<le> 1 / 2 \<longrightarrow> rec_Severity r = HighSeverity)
       \<and> (5 < runs \<and> 1 / 2 < passes / runs \<and> passes / runs \<le> 4 / 5 \<longrightarrow>
            rec_Severity r = MediumSeverity)
       \<and> (5 < runs \<and> 4 / 5 < passes / runs \<longrightarrow> rec_Severity r = LightSeverity)
       \<and> (5 < runs \<longrightarrow> statusNewTestEmoji \<notin> set (rec_Highlight r))
       \<and> (passes = 3 \<and> runs = 10 \<longrightarrow> rec_Severity r = HighSeverity)
       \<and> (passes = 9 \<and> runs = 10 \<longrightarrow> rec_Severity r = LightSeverity)
       \<and> (runs = 3 \<longrightarrow> rec_Severity r = LightSeverity \<and> rec_Highlight r = [statusNewTestEmoji])
       \<and> (\<exists>p \<le> 99. passes = of_nat p) \<and> (\<exists>n \<le> 99. runs = of_nat n)"
proof -
  define x where "x = passes / runs"
  have range: "(\<exists>p \<le> 99. passes = of_nat p) \<and> (\<exists>n \<le> 99. runs = of_nat n)"
    unfolding passes_def runs_def by (rule parsed_counts_range)
  have sev: "rec_Severity r =
     (if runs \<le> 5 then LightSeverity
      else if x \<le> 1 / 2 then HighSeverity
      else if x \<le> 4 / 5 then MediumSeverity
      else LightSeverity)"
    unfolding r_def passes_def runs_def x_def by (rule getDetails_sev)
  have hl: "rec_Highlight r =
     (if runs \<le> 5 then [statusNewTestEmoji]
      else replicate (nat (rec_Severity r))
             (if tv_OverallStatus jobData = Failing then statusFailingEmoji else statusFlakyEmoji))"
    unfolding r_def passes_def runs_def by (rule getDetails_hl)
  have ex1: "passes = 3 \<and> runs = 10 \<longrightarrow> rec_Severity r = HighSeverity"
    by (simp add: sev x_def)
  have ex2: "passes = 9 \<and> runs = 10 \<longrightarrow> rec_Severity r = LightSeverity"
    by (simp add: sev x_def)
  have ex3: "runs = 3 \<longrightarrow> rec_Severity r = LightSeverity \<and> rec_Highlight r = [statusNewTestEmoji]"
    by (simp add: sev hl)
  have gen: "(runs \<le> 5 \<longrightarrow> rec_Severity r = LightSeverity \<and> rec_Highlight r = [statusNewTestEmoji])
       \<and> (5 < runs \<and> x \<le> 1 / 2 \<longrightarrow> rec_Severity r = HighSeverity)
       \<and> (5 < runs \<and> 1 / 2 < x \<and> x \<le> 4 / 5 \<longrightarrow> rec_Severity r = MediumSeverity)
       \<and> (5 < runs \<and> 4 / 5 < x \<longrightarrow> rec_Severity r = LightSeverity)
       \<and> (5 < runs \<longrightarrow> statusNewTestEmoji \<notin> set (rec_Highlight r))"
    by (auto simp: sev hl)
  show ?thesis
    using gen ex1 ex2 ex3 range unfolding x_def by blast
qed

theorem getDetails_severity_witness:
  "recentPasses \<lparr>tv_OverallStatus = ''FLAKY'',
      tv_Status = ''3 of 10 (30.0%) recent columns passed (19455 of 19458 or 100.0% cells)'',
      tv_Tests = []\<rparr> = 3
   \<and> recentRuns \<lparr>tv_OverallStatus = ''FLAKY'',
      tv_Status = ''3 of 10 (30.0%) recent columns passed (19455 of 19458 or 100.0% cells)'',
      tv_Tests = []\<rparr> = 10
   \<and> rec_Severity (getDetails ''ci-job'' \<lparr>tv_OverallStatus = ''FLAKY'',
      tv_Status = ''3 of 10 (30.0%) recent columns passed (19455 of 19458 or 100.0% cells)'',
      tv_Tests = []\<rparr> ''https://testgrid.k8s.io/x'' False) = HighSeverity"
proof -
  let ?jd = "\<lparr>tv_OverallStatus = ''FLAKY'',
      tv_Status = ''3 of 10 (30.0%) recent columns passed (19455 of 19458 or 100.0% cells)'',
      tv_Tests = []\<rparr>"
  have p: "recentPasses ?jd = 3" by code_simp
  have q: "recentRuns ?jd = 10" by code_simp
  show ?thesis
    using getDetails_severity [where jobName = "''ci-job''" and jobData = ?jd
        and jobBaseUrl = "''https://testgrid.k8s.io/x''" and emojisOff = False] p q
    by simp
qed



text \<open>
  Claim C9. The notes of the summary record start with the four count lines of total,
  passing, flaky and failing, in that order. A fifth line, of the stale count, follows
  when that count is not zero, and only then: with no stale job the notes are four lines.
\<close>

theorem getSummary_notes:
  "rec_Notes (getSummary jobs) =
     [fmt_d (int (length jobs)) @ '' jobs total'',
      fmt_d (spec_count Passing jobs) @ '' jobs passing'',
      fmt_d (spec_count Flaky jobs) @ '' jobs flaky'',
      fmt_d (spec_count Failing jobs) @ '' jobs failing'']
     @ (if spec_count Stale jobs \<noteq> 0 then [fmt_d (spec_count Stale jobs) @ '' jobs stale''] else [])
   \<and> length (rec_Notes (getSummary jobs)) = (if spec_count Stale jobs \<noteq> 0 then 5 else 4)"
proof -
  have t: "spec_count Total jobs = int (length jobs)"
    by (simp add: spec_count_def)
  show ?thesis
    by (simp add: getSummary_lines zeroRecord_def lower_names t)
qed

section \<open>Properties of the issue path\<close>

lemma labelsFine_eq:
  "labelsFine fine labels =
     (fine \<and> \<not> list_ex (\<lambda>label.
         list_ex (\<lambda>name. strings_Contains (lbl_Name label) name)
           [''priority/backlog'', ''triage/accepted'', ''lifecycle/rotten'', ''lifecycle/stale''])
        labels)"
  by (induction labels arbitrary: fine) (auto simp: Let_def)

lemma fine_iff:
  "(labelsFine True (gi_Labels i) \<and> \<not> strings_Contains (gi_HTMLURL i) ''pull'')
      = (\<not> spec_excluded i)"
  by (simp add: labelsFine_eq spec_excluded_def)

lemma filterLoop_eq:
  "filterLoop m issues n =
     (if filter (\<lambda>i. gi_Number i = n \<and> \<not> spec_excluded i) issues = [] then m n
      else Some (last (filter (\<lambda>i. gi_Number i = n \<and> \<not> spec_excluded i) issues)))"
proof (induction issues arbitrary: m)
  case Nil
  show ?case by simp
next
  case (Cons i issues)
  show ?case
    by (simp add: Cons.IH Let_def fine_iff)
qed

text \<open>
  Claim C5. The filter drops an issue exactly when the exclusion policy holds for it: one
  of its labels matches \<open>priority/backlog\<close>, \<open>triage/accepted\<close>, \<open>lifecycle/rotten\<close> or
  \<open>lifecycle/stale\<close>, or its URL shows a pull request. For a single issue the result is
  empty when the policy excludes it and holds the issue otherwise. For a page of issues,
  the result holds under a number the last issue of that number the policy keeps, and
  nothing when there is none; its keys are the numbers of the issues kept, and when the
  numbers of the page are distinct its values are exactly the issues kept.
\<close>

theorem filterGithubIssues_policy:
  "filterGithubIssues [i] = (if spec_excluded i then Map.empty else [gi_Number i \<mapsto> i])
   \<and> filterGithubIssues issues n =
       (if filter (\<lambda>i. gi_Number i = n \<and> \<not> spec_excluded i) issues = [] then None
        else Some (last (filter (\<lambda>i. gi_Number i = n \<and> \<not> spec_excluded i) issues)))
   \<and> dom (filterGithubIssues issues) = gi_Number ` {i \<in> set issues. \<not> spec_excluded i}
   \<and> (distinct (map gi_Number issues) \<longrightarrow>
        ran (filterGithubIssues issues) = {i \<in> set issues. \<not> spec_excluded i})"
proof -
  have one: "filterGithubIssues [i] = (if spec_excluded i then Map.empty else [gi_Number i \<mapsto> i])"
    by (rule ext) (simp add: filterGithubIssues_def Let_def fine_iff)
  have at: "filterGithubIssues issues n =
       (if filter (\<lambda>i. gi_Number i = n \<and> \<not> spec_excluded i) issues = [] then None
        else Some (last (filter (\<lambda>i. gi_Number i = n \<and> \<not> spec_excluded i) issues)))" for n
    by (simp add: filterGithubIssues_def filterLoop_eq)
  have d: "dom (filterGithubIssues issues) = gi_Number ` {i \<in> set issues. \<not> spec_excluded i}"
    by (auto simp: dom_def at filter_empty_conv image_iff)
  have r: "ran (filterGithubIssues issues) = {i \<in> set issues. \<not> spec_excluded i}"
    if dist: "distinct (map gi_Number issues)"
  proof -
    have single: "filter (\<lambda>j. gi_Number j = gi_Number i \<and> \<not> spec_excluded j) issues = [i]"
      if "i \<in> set issues" "\<not> spec_excluded i" for i
      using dist that
    proof (induction issues)
      case Nil
      then show ?case by simp
    next
      case (Cons a issues)
      then show ?case
        by (auto simp: filter_empty_conv image_iff)
    qed
    show ?thesis
    proof (intro equalityI subsetI)
      fix x assume "x \<in> ran (filterGithubIssues issues)"
      then obtain k where k: "filterGithubIssues issues k = Some x" by (auto simp: ran_def)
      let ?kept = "filter (\<lambda>i. gi_Number i = k \<and> \<not> spec_excluded i) issues"
      from k have ne: "?kept \<noteq> []" and x: "x = last ?kept"
        by (auto simp: at split: if_splits)
      from ne have "last ?kept \<in> set ?kept" by (rule last_in_set)
      with x show "x \<in> {i \<in> set issues. \<not> spec_excluded i}" by auto
    next
      fix x assume "x \<in> {i \<in> set issues. \<not> spec_excluded i}"
      then have "filterGithubIssues issues (gi_Number x) = Some x"
        using single [of x] by (simp add: at)
      then show "x \<in> ran (filterGithubIssues issues)" by (auto simp: ran_def)
    qed
  qed
  from one at d r show ?thesis by blast
qed

theorem filterGithubIssues_policy_witness:
  "distinct (map gi_Number
      [issueWith 7 ''https://github.com/kubernetes/kubernetes/issues/7'' [''kind/failing-test''],
       issueWith 8 ''https://github.com/kubernetes/kubernetes/pull/8'' [''kind/failing-test''],
       issueWith 9 ''https://github.com/kubernetes/kubernetes/issues/9''
         [''kind/failing-test'', ''lifecycle/stale'']])
   \<and> ran (filterGithubIssues
      [issueWith 7 ''https://github.com/kubernetes/kubernetes/issues/7'' [''kind/failing-test''],
       issueWith 8 ''https://github.com/kubernetes/kubernetes/pull/8'' [''kind/failing-test''],
       issueWith 9 ''https://github.com/kubernetes/kubernetes/issues/9''
         [''kind/failing-test'', ''lifecycle/stale'']])
     = {issueWith 7 ''https://github.com/kubernetes/kubernetes/issues/7'' [''kind/failing-test'']}"
proof -
  let ?a = "issueWith 7 ''https://github.com/kubernetes/kubernetes/issues/7'' [''kind/failing-test'']"
  let ?b = "issueWith 8 ''https://github.com/kubernetes/kubernetes/pull/8'' [''kind/failing-test'']"
  let ?c = "issueWith 9 ''https://github.com/kubernetes/kubernetes/issues/9''
         [''kind/failing-test'', ''lifecycle/stale'']"
  have d: "distinct (map gi_Number [?a, ?b, ?c])" by (simp add: issueWith_def)
  have a: "\<not> spec_excluded ?a" by code_simp
  have b: "spec_excluded ?b" by code_simp
  have c: "spec_excluded ?c" by code_simp
  have "{i \<in> set [?a, ?b, ?c]. \<not> spec_excluded i} = {?a}"
    using a b c by auto
  with d show ?thesis
    using filterGithubIssues_policy [where issues = "[?a, ?b, ?c]"] by simp
qed

lemma digit_cases: "d < 10 \<Longrightarrow> d \<in> {0, 1, 2, 3, 4, 5, 6, 7, 8, 9::nat}"
  by auto

lemma digit_char:
  assumes "d < 10"
  shows "isDigit (''0123456789'' ! d)" and "of_char (''0123456789'' ! d) - 48 = d"
  using digit_cases [OF assms] by (auto simp: isDigit_def)

lemma digitsOf_all: "list_all isDigit (digitsOf n)"
proof (induction n rule: digitsOf.induct)
  case (1 n)
  show ?case
  proof (cases "n < 10")
    case True
    then show ?thesis by (subst digitsOf.simps) (simp add: digit_char)
  next
    case False
    with 1 show ?thesis by (subst digitsOf.simps) (simp add: digit_char)
  qed
qed

lemma decimalOf_append: "decimalOf (a @ b) acc = decimalOf b (decimalOf a acc)"
  by (induction a arbitrary: acc) auto

lemma decimalOf_digitsOf: "decimalOf (digitsOf n) 0 = n"
proof (induction n rule: digitsOf.induct)
  case (1 n)
  show ?case
  proof (cases "n < 10")
    case True
    then show ?thesis by (subst digitsOf.simps) (simp add: digit_char)
  next
    case False
    with 1 show ?thesis
      by (subst digitsOf.simps) (simp add: digit_char decimalOf_append)
  qed
qed

lemma lastPageParam_request:
  "lastPageParam (withPage url (int k)) = k"
proof -
  have "takeWhile isDigit (rev (digitsOf k) @ ''='' @ rev (url @ ''&'' @ IssueReqParamPage))
      = rev (digitsOf k)"
    using digitsOf_all [of k]
    by (subst takeWhile_append2) (auto simp: list_all_iff isDigit_def)
  then show ?thesis
    by (simp add: lastPageParam_def fmt_d_def decimalOf_digitsOf withPage_def)
qed

lemma ceil_div_upper:
  assumes "0 < P"
  shows "N \<le> ((N + P - 1) div P) * (P::nat)"
proof -
  have "(N + P - 1) div P * P + (N + P - 1) mod P = N + P - 1" by simp
  moreover have "(N + P - 1) mod P < P" using assms by simp
  ultimately show ?thesis by linarith
qed

lemma ceil_div_lower:
  assumes "0 < P" and "k < (N + P - 1) div P"
  shows "k * P < (N::nat)"
proof -
  have a: "(N + P - 1) div P * P \<le> N + P - 1" by simp
  from assms(2) have b: "(k + 1) * P \<le> (N + P - 1) div P * P"
    by (intro mult_le_mono1) simp
  have c: "(k + 1) * P = k * P + P" by simp
  from a b c have "k * P + P \<le> N + P - 1" by (simp only: order_trans)
  with assms(1) show ?thesis by linarith
qed

lemma ceil_as_div:
  assumes "0 < P"
  shows "nat \<lceil>(of_nat N :: rat) / of_nat P\<rceil> = (N + P - 1) div P"
proof -
  let ?q = "(N + P - 1) div P"
  have up: "(of_nat N :: rat) \<le> of_nat ?q * of_nat P"
    using ceil_div_upper [OF assms, of N] by (metis of_nat_le_iff of_nat_mult)
  have low: "(of_nat ?q - 1) * (of_nat P :: rat) < of_nat N"
  proof (cases "?q = 0")
    case True
    with assms show ?thesis
      by (simp add: mult_less_0_iff) 
  next
    case False
    then have "(?q - 1) * P < N" using ceil_div_lower [OF assms, of "?q - 1" N] by simp
    then have "(of_nat ((?q - 1) * P) :: rat) < of_nat N" by (simp only: of_nat_less_iff)
    moreover from False have "(of_nat (?q - 1) :: rat) = of_nat ?q - 1" by (simp add: of_nat_diff)
    ultimately show ?thesis by (simp only: of_nat_mult)
  qed
  have P: "(0::rat) < of_nat P" using assms by simp
  have "\<lceil>(of_nat N :: rat) / of_nat P\<rceil> = int ?q"
    unfolding ceiling_eq_iff using up low P
    by (simp add: pos_divide_le_eq pos_less_divide_eq)
  then show ?thesis by simp
qed

lemma pagedServer_page:
  "pagedServer items P (withPage url (int k))
     = Inr (take P (drop ((k - 1) * P) items))"
  by (simp only: pagedServer_def lastPageParam_request)

lemma request_empty_page:
  assumes "serve (withPage url page) = Inr []"
  shows "requestGithubIssues serve url page =
           Some (Returns ([withPage url page],
                          [filterGithubIssues []]))"
  by (subst requestGithubIssues.simps) (simp add: assms Let_def)

lemma request_full_page:
  assumes "serve (withPage url page) = Inr issues"
    and "issues \<noteq> []"
    and "requestGithubIssues serve (withPage url page) (page + 1)
           = Some (Returns (requests, sent))"
  shows "requestGithubIssues serve url page =
           Some (Returns ((withPage url page) # requests,
                          filterGithubIssues issues # sent))"
  by (subst requestGithubIssues.simps) (simp add: assms Let_def)

lemma request_failed_page:
  assumes "serve (withPage url page) = Inl e"
  shows "requestGithubIssues serve url page = Some Exits"
  by (subst requestGithubIssues.simps) (simp add: assms Let_def)

lemma paged_requests:
  assumes P: "0 < P" and j: "j \<le> (length items + P - 1) div P"
  shows "\<exists>requests sent.
           requestGithubIssues (pagedServer items P) url
             (int ((length items + P - 1) div P + 1 - j)) = Some (Returns (requests, sent))
           \<and> length requests = j + 1 \<and> length sent = j + 1"
  using j
proof (induction j arbitrary: url)
  case 0
  let ?n = "(length items + P - 1) div P"
  have "take P (drop ((?n + 1 - 1) * P) items) = []"
    using ceil_div_upper [OF P, of "length items"] by simp
  with pagedServer_page [of items P url "?n + 1"]
  have "pagedServer items P (withPage url (int (?n + 1))) = Inr []"
    by (simp only:)
  from request_empty_page [of "pagedServer items P" url "int (?n + 1)", OF this]
  show ?case by simp
next
  case (Suc j)
  let ?n = "(length items + P - 1) div P"
  let ?k = "?n + 1 - Suc j"
  let ?url = "withPage url (int ?k)"
  from Suc.prems have k: "?k - 1 < ?n" "int ?k + 1 = int (?n + 1 - j)" by auto
  have "(?k - 1) * P < length items"
    using ceil_div_lower [OF P k(1)] .
  with P have ne: "take P (drop ((?k - 1) * P) items) \<noteq> []" by simp
  have page: "pagedServer items P ?url = Inr (take P (drop ((?k - 1) * P) items))"
    by (rule pagedServer_page)
  from Suc.prems have "j \<le> ?n" by simp
  from Suc.IH [OF this, of ?url] obtain requests sent where
    later: "requestGithubIssues (pagedServer items P) ?url (int ?k + 1) = Some (Returns (requests, sent))"
    and len: "length requests = j + 1" "length sent = j + 1"
    unfolding k(2) by blast
  from request_full_page [of "pagedServer items P" url "int ?k", OF page ne later] len
  show ?case by simp
qed

lemma request_returns_cases:
  assumes "requestGithubIssues serve url page = Some (Returns (requests, sent))"
  shows "(serve (withPage url page) = Inr [] \<and> requests = [withPage url page]
            \<and> sent = [filterGithubIssues []])
       \<or> (\<exists>issues requests' sent'.
            serve (withPage url page) = Inr issues \<and> issues \<noteq> []
            \<and> requestGithubIssues serve (withPage url page) (page + 1)
                 = Some (Returns (requests', sent'))
            \<and> requests = withPage url page # requests'
            \<and> sent = filterGithubIssues issues # sent')"
  using assms
  by (subst (asm) requestGithubIssues.simps)
     (auto simp: Let_def split: sum.splits if_splits bind_splits run.splits)

lemma chain_exits:
  assumes "\<forall>j<k. \<exists>issues. serve (requestUrl url page j) = Inr issues \<and> issues \<noteq> []"
    and "serve (requestUrl url page k) = Inl e"
  shows "requestGithubIssues serve url page = Some Exits"
  using assms
proof (induction k arbitrary: url page)
  case 0
  then show ?case by (simp add: request_failed_page)
next
  case (Suc k)
  from Suc.prems(1) have first: "\<exists>issues. serve (withPage url page) = Inr issues \<and> issues \<noteq> []"
    by (metis requestUrl.simps(1) zero_less_Suc)
  have "\<forall>j<k. \<exists>issues. serve (requestUrl (withPage url page) (page + 1) j) = Inr issues \<and> issues \<noteq> []"
    using Suc.prems(1) by (metis Suc_less_eq requestUrl.simps(2))
  moreover have "serve (requestUrl (withPage url page) (page + 1) k) = Inl e"
    using Suc.prems(2) by simp
  ultimately have later: "requestGithubIssues serve (withPage url page) (page + 1) = Some Exits"
    by (rule Suc.IH)
  from first obtain issues where "serve (withPage url page) = Inr issues" "issues \<noteq> []" by blast
  then show ?case
    by (subst requestGithubIssues.simps) (simp add: Let_def later)
qed

lemma returned_all_pages:
  assumes "requestGithubIssues serve url page = Some (Returns (requests, sent))"
  shows "\<exists>k. requests = map (requestUrl url page) [0..<Suc k]
           \<and> length sent = Suc k
           \<and> (\<forall>j<k. \<exists>issues. serve (requestUrl url page j) = Inr issues \<and> issues \<noteq> []
                   \<and> sent ! j = filterGithubIssues issues)
           \<and> serve (requestUrl url page k) = Inr []
           \<and> sent ! k = Map.empty"
  using assms
proof (induction requests arbitrary: url page sent)
  case Nil
  from request_returns_cases [OF Nil.prems] show ?case by auto
next
  case (Cons u requests)
  from request_returns_cases [OF Cons.prems]
  consider (last) "serve (withPage url page) = Inr []" "requests = []" "u = withPage url page"
      "sent = [filterGithubIssues []]"
    | (more) issues sent' where "serve (withPage url page) = Inr issues" "issues \<noteq> []"
      "requestGithubIssues serve (withPage url page) (page + 1) = Some (Returns (requests, sent'))"
      "u = withPage url page" "sent = filterGithubIssues issues # sent'"
    by auto
  then show ?case
  proof cases
    case last
    then have "u # requests = map (requestUrl url page) [0..<Suc 0] \<and> length sent = Suc 0
        \<and> (\<forall>j<0. \<exists>issues. serve (requestUrl url page j) = Inr issues \<and> issues \<noteq> []
                   \<and> sent ! j = filterGithubIssues issues)
        \<and> serve (requestUrl url page 0) = Inr [] \<and> sent ! 0 = Map.empty"
      by (simp add: filterGithubIssues_def)
    then show ?thesis by (rule exI [where x = 0])
  next
    case more
    from Cons.IH [OF more(3)] obtain k where
      k: "requests = map (requestUrl (withPage url page) (page + 1)) [0..<Suc k]"
         "length sent' = Suc k"
         "\<forall>j<k. \<exists>issues. serve (requestUrl (withPage url page) (page + 1) j) = Inr issues
              \<and> issues \<noteq> [] \<and> sent' ! j = filterGithubIssues issues"
         "serve (requestUrl (withPage url page) (page + 1) k) = Inr []"
         "sent' ! k = Map.empty"
      by blast
    have reqs: "u # requests = map (requestUrl url page) [0..<Suc (Suc k)]"
    proof -
      have e: "[0..<Suc (Suc k)] = 0 # map Suc [0..<Suc k]"
        by (metis map_Suc_upt upt_conv_Cons zero_less_Suc)
      have c: "requestUrl url page \<circ> Suc = requestUrl (withPage url page) (page + 1)"
        by (rule ext) simp
      have "map (requestUrl url page) [0..<Suc (Suc k)]
          = requestUrl url page 0 # map (requestUrl url page \<circ> Suc) [0..<Suc k]"
        by (simp only: e list.map map_map)
      also have "\<dots> = u # requests"
        by (simp only: c k(1) [symmetric] more(4) requestUrl.simps)
      finally show ?thesis by (rule sym)
    qed
    have pages: "\<forall>j<Suc k. \<exists>issues. serve (requestUrl url page j) = Inr issues \<and> issues \<noteq> []
                   \<and> sent ! j = filterGithubIssues issues"
    proof (intro allI impI)
      fix j assume "j < Suc k"
      show "\<exists>issues. serve (requestUrl url page j) = Inr issues \<and> issues \<noteq> []
                   \<and> sent ! j = filterGithubIssues issues"
      proof (cases j)
        case 0
        with more show ?thesis by simp
      next
        case (Suc i)
        with \<open>j < Suc k\<close> have "i < k" by simp
        with k(3) Suc more(5) show ?thesis by simp
      qed
    qed
    have len: "length sent = Suc (Suc k)" using k(2) more(5) by simp
    have final: "serve (requestUrl url page (Suc k)) = Inr []" using k(4) by simp
    have empty: "sent ! Suc k = Map.empty" using k(5) more(5) by simp
    from reqs len pages final empty
    have "u # requests = map (requestUrl url page) [0..<Suc (Suc k)]
        \<and> length sent = Suc (Suc k)
        \<and> (\<forall>j<Suc k. \<exists>issues. serve (requestUrl url page j) = Inr issues \<and> issues \<noteq> []
                   \<and> sent ! j = filterGithubIssues issues)
        \<and> serve (requestUrl url page (Suc k)) = Inr [] \<and> sent ! Suc k = Map.empty"
      by (intro conjI)
    then show ?thesis by (rule exI [where x = "Suc k"])
  qed
qed

text \<open>
  Claim C2. Against a result set of \<open>N\<close> items served in pages of \<open>P > 0\<close> items, the
  fetch returns after exactly \<open>ceil(N / P) + 1\<close> requests. For any service: an empty raw
  page ends the chain of requests, and a raw page that is not empty is followed by the
  request of the next page also when the filter keeps none of its items.
\<close>

theorem pagination_requests:
  assumes "0 < perPage"
  shows "(\<exists>requests sent.
            assembleGithubIssues (pagedServer items perPage) url = Some (Returns (requests, sent))
            \<and> length requests = nat \<lceil>(of_nat (length items) :: rat) / of_nat perPage\<rceil> + 1
            \<and> length sent = length requests)
       \<and> (serve (withPage url page) = Inr [] \<longrightarrow>
            requestGithubIssues serve url page = Some (Returns ([withPage url page], [Map.empty])))
       \<and> (serve (withPage url page) = Inr issues \<and> issues \<noteq> []
            \<and> filterGithubIssues issues = Map.empty
            \<and> requestGithubIssues serve (withPage url page) (page + 1) = Some (Returns (later, sent'))
          \<longrightarrow> requestGithubIssues serve url page
                = Some (Returns (withPage url page # later, Map.empty # sent')))"
proof -
  let ?n = "(length items + perPage - 1) div perPage"
  from paged_requests [OF assms, of ?n items url]
  obtain requests sent where
    "requestGithubIssues (pagedServer items perPage) url (int (?n + 1 - ?n)) = Some (Returns (requests, sent))"
    "length requests = ?n + 1" "length sent = ?n + 1"
    by blast
  then have "assembleGithubIssues (pagedServer items perPage) url = Some (Returns (requests, sent))
      \<and> length requests = nat \<lceil>(of_nat (length items) :: rat) / of_nat perPage\<rceil> + 1
      \<and> length sent = length requests"
    by (simp add: assembleGithubIssues_def ceil_as_div [OF assms])
  then have main: "\<exists>requests sent.
            assembleGithubIssues (pagedServer items perPage) url = Some (Returns (requests, sent))
            \<and> length requests = nat \<lceil>(of_nat (length items) :: rat) / of_nat perPage\<rceil> + 1
            \<and> length sent = length requests"
    by blast
  have stop: "serve (withPage url page) = Inr [] \<longrightarrow>
            requestGithubIssues serve url page = Some (Returns ([withPage url page], [Map.empty]))"
    using request_empty_page [of serve url page] by (simp add: filterGithubIssues_def)
  have go: "serve (withPage url page) = Inr issues \<and> issues \<noteq> []
            \<and> filterGithubIssues issues = Map.empty
            \<and> requestGithubIssues serve (withPage url page) (page + 1) = Some (Returns (later, sent'))
          \<longrightarrow> requestGithubIssues serve url page
                = Some (Returns (withPage url page # later, Map.empty # sent'))"
    using request_full_page [of serve url page issues later sent'] by auto
  from main stop go show ?thesis by blast
qed

lemma ex_page1:
  "pagedServer [issueWith 1 ''https://github.com/kubernetes/kubernetes/pull/1'' [],
                issueWith 2 ''https://github.com/kubernetes/kubernetes/pull/2'' []] 1
     (withPage ''https://api.github.com/repos/kubernetes/kubernetes/issues?state=open'' 1)
   = Inr [issueWith 1 ''https://github.com/kubernetes/kubernetes/pull/1'' []]"
  by code_simp

lemma ex_filtered:
  "filterGithubIssues [issueWith 1 ''https://github.com/kubernetes/kubernetes/pull/1'' []] = Map.empty"
  by (simp add: filterGithubIssues_def issueWith_def)

theorem pagination_requests_witness:
  "(0::nat) < 1
   \<and> pagedServer [issueWith 1 ''https://github.com/kubernetes/kubernetes/pull/1'' [],
                issueWith 2 ''https://github.com/kubernetes/kubernetes/pull/2'' []] 1
        (withPage ''https://api.github.com/repos/kubernetes/kubernetes/issues?state=open'' 1)
      = Inr [issueWith 1 ''https://github.com/kubernetes/kubernetes/pull/1'' []]
   \<and> filterGithubIssues [issueWith 1 ''https://github.com/kubernetes/kubernetes/pull/1'' []] = Map.empty
   \<and> (\<exists>requests sent.
        assembleGithubIssues
          (pagedServer [issueWith 1 ''https://github.com/kubernetes/kubernetes/pull/1'' [],
                        issueWith 2 ''https://github.com/kubernetes/kubernetes/pull/2'' []] 1)
          ''https://api.github.com/repos/kubernetes/kubernetes/issues?state=open''
          = Some (Returns (requests, sent))
        \<and> length requests = 3)"
proof -
  have one: "(0::nat) < 1" by simp
  have "\<exists>requests sent.
        assembleGithubIssues
          (pagedServer [issueWith 1 ''https://github.com/kubernetes/kubernetes/pull/1'' [],
                        issueWith 2 ''https://github.com/kubernetes/kubernetes/pull/2'' []] 1)
          ''https://api.github.com/repos/kubernetes/kubernetes/issues?state=open''
          = Some (Returns (requests, sent))
        \<and> length requests = 3"
    using pagination_requests [OF one, where
        items = "[issueWith 1 ''https://github.com/kubernetes/kubernetes/pull/1'' [],
                  issueWith 2 ''https://github.com/kubernetes/kubernetes/pull/2'' []]"
        and url = "''https://api.github.com/repos/kubernetes/kubernetes/issues?state=open''",
        THEN conjunct1]
    by auto
  with one ex_page1 ex_filtered show ?thesis by blast
qed

text \<open>
  Claim C3, as stated, fails: the claim has the error of a failed page handed to the
  caller as a value, with the process alive. When the first request fails in transport,
  the call ends the process and returns nothing.
\<close>

theorem fetch_failure_counterexample:
  "requestGithubIssues (\<lambda>url. Inl TransportError)
     ''https://api.github.com/repos/kubernetes/kubernetes/issues?state=open'' 1 = Some Exits
   \<and> \<not> (\<exists>result. requestGithubIssues (\<lambda>url. Inl TransportError)
     ''https://api.github.com/repos/kubernetes/kubernetes/issues?state=open'' 1
       = Some (Returns result))"
  by (subst requestGithubIssues.simps, subst requestGithubIssues.simps) (simp add: Let_def)

text \<open>
  Claim C3, amended. A transport or decode failure on a page ends the whole process
  (\<open>log.Fatalf\<close>) and hands nothing to the caller: when the pages before page \<open>k\<close> are
  served and not empty and page \<open>k\<close> fails, the fetch exits. No page is dropped silently:
  when the fetch returns, its requests are those of the pages up to the first empty
  one, every one of them was served, and the filtered items of each were sent.
\<close>

theorem fetch_failure_exits:
  "((\<forall>j<k. \<exists>issues. serve (requestUrl url page j) = Inr issues \<and> issues \<noteq> [])
      \<and> serve (requestUrl url page k) = Inl e
     \<longrightarrow> requestGithubIssues serve url page = Some Exits)
   \<and> (requestGithubIssues serve url page = Some (Returns (requests, sent))
     \<longrightarrow> (\<exists>n. requests = map (requestUrl url page) [0..<Suc n]
           \<and> length sent = Suc n
           \<and> (\<forall>j<n. \<exists>issues. serve (requestUrl url page j) = Inr issues \<and> issues \<noteq> []
                   \<and> sent ! j = filterGithubIssues issues)
           \<and> serve (requestUrl url page n) = Inr []
           \<and> sent ! n = Map.empty))"
  using chain_exits [of k serve url page e] returned_all_pages [of serve url page requests sent]
  by blast

theorem fetch_failure_exits_witness:
  "(\<lambda>u. if u = ''https://api.github.com/x?state=open&page=1''
         then Inr [issueWith 7 ''https://github.com/kubernetes/kubernetes/issues/7'' []]
         else Inl DecodeError) (requestUrl ''https://api.github.com/x?state=open'' 1 0)
     = Inr [issueWith 7 ''https://github.com/kubernetes/kubernetes/issues/7'' []]
   \<and> (\<lambda>u. if u = ''https://api.github.com/x?state=open&page=1''
         then Inr [issueWith 7 ''https://github.com/kubernetes/kubernetes/issues/7'' []]
         else Inl DecodeError) (requestUrl ''https://api.github.com/x?state=open'' 1 1)
     = Inl DecodeError
   \<and> requestGithubIssues
       (\<lambda>u. if u = ''https://api.github.com/x?state=open&page=1''
         then Inr [issueWith 7 ''https://github.com/kubernetes/kubernetes/issues/7'' []]
         else Inl DecodeError)
       ''https://api.github.com/x?state=open'' 1 = Some Exits
   \<and> requestGithubIssues (\<lambda>u. Inr []) ''https://api.github.com/x?state=open'' 1
       = Some (Returns ([withPage ''https://api.github.com/x?state=open'' 1], [Map.empty]))"
proof -
  let ?serve = "\<lambda>u. if u = ''https://api.github.com/x?state=open&page=1''
         then Inr [issueWith 7 ''https://github.com/kubernetes/kubernetes/issues/7'' []]
         else (Inl DecodeError :: error + GithubIssues)"
  let ?url = "''https://api.github.com/x?state=open''"
  have u0: "requestUrl ?url 1 0 = ''https://api.github.com/x?state=open&page=1''"
    by code_simp
  have u1: "requestUrl ?url 1 1 = ''https://api.github.com/x?state=open&page=1&page=2''"
    by code_simp
  have p0: "?serve (requestUrl ?url 1 0)
     = Inr [issueWith 7 ''https://github.com/kubernetes/kubernetes/issues/7'' []]"
    by (simp only: u0) simp
  have p1: "?serve (requestUrl ?url 1 1) = Inl DecodeError"
    by (simp only: u1) simp
  have "\<forall>j<1. \<exists>issues. ?serve (requestUrl ?url 1 j) = Inr issues \<and> issues \<noteq> []"
    using p0 by auto
  with p1 have "requestGithubIssues ?serve ?url 1 = Some Exits"
    using fetch_failure_exits [where serve = ?serve and url = ?url and page = 1 and k = 1
        and e = DecodeError, THEN conjunct1]
    by blast
  moreover have "requestGithubIssues (\<lambda>u. Inr []) ?url 1
       = Some (Returns ([withPage ?url 1], [Map.empty]))"
    using request_empty_page [of "\<lambda>u. Inr []" ?url 1] by (simp add: filterGithubIssues_def)
  ultimately show ?thesis using p0 p1 by blast
qed

subsection \<open>The age highlight\<close>

lemma div_step:
  assumes "0 < k"
  shows "(n::int) div k - (n - 1) div k = (if n mod k = 0 then 1 else 0)"
proof (cases "n mod k = 0")
  case True
  have "n - 1 = k * (n div k - 1) + (k - 1)"
    using True by (simp add: algebra_simps) (metis mult_div_mod_eq add.right_neutral mult.commute)
  then have "(n - 1) div k = n div k - 1"
    using assms by (intro int_div_pos_eq [where r = "k - 1"]) auto
  with True show ?thesis by simp
next
  case False
  have pos: "0 \<le> n mod k" "n mod k < k" using assms by simp_all
  have "n - 1 = k * (n div k) + (n mod k - 1)" by simp
  then have "(n - 1) div k = n div k"
    using assms False pos by (intro int_div_pos_eq [where r = "n mod k - 1"]) auto
  with False show ?thesis by simp
qed

lemma mod_chain:
  "(y::int) mod 400 = 0 \<Longrightarrow> y mod 100 = 0" "(y::int) mod 100 = 0 \<Longrightarrow> y mod 4 = 0"
proof -
  have a: "(100::int) dvd 400" and b: "(4::int) dvd 100" by simp_all
  show "y mod 400 = 0 \<Longrightarrow> y mod 100 = 0"
    using dvd_trans [OF a, of y] by (simp add: mod_eq_0_iff_dvd)
  show "y mod 100 = 0 \<Longrightarrow> y mod 4 = 0"
    using dvd_trans [OF b, of y] by (simp add: mod_eq_0_iff_dvd)
qed

lemma year_diff_aux:
  "365 * (y::int) + a - b + c - (365 * (y - 1) + a' - b' + c')
     = 365 + (a - a') - (b - b') + (c - c')"
  by (simp add: algebra_simps)

lemma year_length: "daysSinceEpoch (y + 1) - daysSinceEpoch y = (if isLeap y then 366 else 365)"
proof -
  define p4 where "p4 \<longleftrightarrow> y mod 4 = 0"
  define p100 where "p100 \<longleftrightarrow> y mod 100 = 0"
  define p400 where "p400 \<longleftrightarrow> y mod 400 = 0"
  define q4 where "q4 = y div 4 - (y - 1) div 4"
  define q100 where "q100 = y div 100 - (y - 1) div 100"
  define q400 where "q400 = y div 400 - (y - 1) div 400"
  have a: "q4 = (if p4 then 1 else 0)" unfolding q4_def p4_def by (rule div_step) simp
  have b: "q100 = (if p100 then 1 else 0)" unfolding q100_def p100_def by (rule div_step) simp
  have c: "q400 = (if p400 then 1 else 0)" unfolding q400_def p400_def by (rule div_step) simp
  have chain: "p400 \<longrightarrow> p100" "p100 \<longrightarrow> p4"
    unfolding p4_def p100_def p400_def using mod_chain [of y] by blast+
  have leap: "isLeap y \<longleftrightarrow> p4 \<and> (\<not> p100 \<or> p400)"
    unfolding isLeap_def p4_def p100_def p400_def ..
  have "daysSinceEpoch (y + 1) - daysSinceEpoch y = 365 + q4 - q100 + q400"
    unfolding daysSinceEpoch_def q4_def q100_def q400_def
    by (simp only: add_diff_cancel_right' year_diff_aux)
  also have "\<dots> = (if isLeap y then 366 else 365)"
    unfolding leap a b c using chain by (cases p4; cases p100; cases p400; simp)
  finally show ?thesis .
qed

lemma month_cases:
  assumes "1 \<le> m" and "m \<le> 12"
  shows "m \<in> {1, 2, 3, 4, 5, 6, 7, 8, 9, 10, 11, 12::int}"
proof -
  from assms have "m = 1 \<or> m = 2 \<or> m = 3 \<or> m = 4 \<or> m = 5 \<or> m = 6 \<or> m = 7 \<or> m = 8
      \<or> m = 9 \<or> m = 10 \<or> m = 11 \<or> m = 12" by arith
  then show ?thesis by blast
qed

lemma absDays_this_year:
  assumes "1 \<le> m" and "m \<le> 12"
  shows "absDays y m d = daysSinceEpoch y + daysBefore (m - 1)
           + (if isLeap y \<and> 3 \<le> m then 1 else 0) + (d - 1)"
proof -
  from assms have "(m - 1) div 12 = 0" "(m - 1) mod 12 = m - 1" by simp_all
  then show ?thesis by (simp add: absDays_def Let_def)
qed

lemma absDays_last_year:
  assumes "-11 \<le> m" and "m \<le> 0"
  shows "absDays y m d = daysSinceEpoch (y - 1) + daysBefore (m + 11)
           + (if isLeap (y - 1) \<and> 3 \<le> m + 12 then 1 else 0) + (d - 1)"
proof -
  have e: "m - 1 = 12 * (- 1) + (m + 11)" by simp
  from assms have "(m - 1) div 12 = - 1"
    by (intro int_div_pos_eq [OF e]) auto
  moreover from assms have "(m - 1) mod 12 = m + 11"
    by (intro int_mod_pos_eq [OF e]) auto
  ultimately show ?thesis by (simp add: absDays_def Let_def add.commute)
qed

lemma three_months_back:
  assumes "1 \<le> m" and "m \<le> 12"
  shows "absDays y (m - 3) d + 89 \<le> absDays y m d"
proof -
  have prev: "daysSinceEpoch (y - 1) = daysSinceEpoch y - (if isLeap (y - 1) then 366 else 365)"
    using year_length [of "y - 1"] by simp
  have now: "absDays y m d = daysSinceEpoch y + daysBefore (m - 1)
           + (if isLeap y \<and> 3 \<le> m then 1 else 0) + (d - 1)"
    using assms by (rule absDays_this_year)
  show ?thesis
  proof (cases "m \<le> 3")
    case True
    with assms have "absDays y (m - 3) d = daysSinceEpoch (y - 1) + daysBefore (m - 3 + 11)
           + (if isLeap (y - 1) \<and> 3 \<le> m - 3 + 12 then 1 else 0) + (d - 1)"
      by (intro absDays_last_year) auto
    moreover from True assms have "m = 1 \<or> m = 2 \<or> m = 3" by arith
    ultimately show ?thesis
      unfolding now prev by (auto simp: daysBefore_def)
  next
    case False
    with assms have "absDays y (m - 3) d = daysSinceEpoch y + daysBefore (m - 3 - 1)
           + (if isLeap y \<and> 3 \<le> m - 3 then 1 else 0) + (d - 1)"
      by (intro absDays_this_year) auto
    moreover from False assms have "m = 4 \<or> m = 5 \<or> m = 6 \<or> m = 7 \<or> m = 8 \<or> m = 9
        \<or> m = 10 \<or> m = 11 \<or> m = 12" by arith
    ultimately show ?thesis
      unfolding now by (auto simp: daysBefore_def)
  qed
qed

lemma absDays_day: "absDays y m (d + k) = absDays y m d + k"
  by (simp add: absDays_def Let_def)

lemma instant_days_back:
  "instant (AddDate t 0 0 (- k)) = instant t - k * 86400 * 1000000000"
  by (simp add: instant_def AddDate_def absDays_day [of _ _ _ "- k", simplified] algebra_simps)

lemma instant_months_back:
  assumes "validTime now"
  shows "instant (AddDate now 0 (- 3) 0) + 89 * 86400 * 1000000000 \<le> instant now"
proof -
  from assms have m: "1 \<le> t_month now" "t_month now \<le> 12" by (simp_all add: validTime_def)
  have "absDays (t_year now) (t_month now - 3) (t_day now) + 89
      \<le> absDays (t_year now) (t_month now) (t_day now)"
    using m by (rule three_months_back)
  then show ?thesis by (simp add: instant_def AddDate_def)
qed

lemma highlight_old:
  "statusOldEmoji \<in> set (issueHighlight parse createdAt now now')
     \<longleftrightarrow> instant (parsedOrZero parse ''2006-01-02T15:04:05Z'' createdAt)
           < instant (AddDate now 0 (- 3) 0)"
  by (simp add: issueHighlight_def checkTimeBefore_def Before_def Let_def)

lemma highlight_new:
  "statusNewEmoji \<in> set (issueHighlight parse createdAt now now')
     \<longleftrightarrow> instant (AddDate now' 0 0 (- 5))
           \<le> instant (parsedOrZero parse ''2006-01-02T15:04:05Z'' createdAt)"
  by (auto simp: issueHighlight_def checkTimeBefore_def Before_def Let_def)

lemma never_both:
  assumes "validTime now" and "instant now \<le> instant now'"
  shows "\<not> (statusOldEmoji \<in> set (issueHighlight parse createdAt now now')
          \<and> statusNewEmoji \<in> set (issueHighlight parse createdAt now now'))"
proof
  assume both: "statusOldEmoji \<in> set (issueHighlight parse createdAt now now')
          \<and> statusNewEmoji \<in> set (issueHighlight parse createdAt now now')"
  let ?c = "instant (parsedOrZero parse ''2006-01-02T15:04:05Z'' createdAt)"
  from both have "?c < instant (AddDate now 0 (- 3) 0)" by (simp add: highlight_old)
  moreover from both have "instant (AddDate now' 0 0 (- 5)) \<le> ?c" by (simp add: highlight_new)
  moreover have "instant (AddDate now' 0 0 (- 5)) = instant now' - 5 * 86400 * 1000000000"
    by (rule instant_days_back)
  moreover note instant_months_back [OF assms(1)] assms(2)
  ultimately show False by linarith
qed

text \<open>
  Claim C8, as stated, fails in its last part: no issue gets both markers. The old marker
  needs a creation time before \<open>now\<close> minus three months, the fresh marker one that is not
  before \<open>now'\<close> minus five days, and three months back is at least 89 days back. (The
  second reading of the clock is taken not to be before the first.)
\<close>

theorem highlight_both_counterexample:
  "\<not> (\<exists>parse createdAt now now'. validTime now \<and> instant now \<le> instant now'
        \<and> statusOldEmoji \<in> set (issueHighlight parse createdAt now now')
        \<and> statusNewEmoji \<in> set (issueHighlight parse createdAt now now'))"
  using never_both by blast

text \<open>
  Claim C8, amended. With the creation time what \<open>created_at\<close> parses to (the zero time
  when it does not parse): the highlight holds the old marker exactly when the creation
  time is before \<open>now\<close> minus three calendar months, which is at least 89 days before
  \<open>now\<close>; it holds the fresh marker exactly when the creation time is not before \<open>now'\<close>
  minus five days; and it never holds both, the clock not running backwards between the
  two readings.
\<close>

theorem highlight_age:
  "(statusOldEmoji \<in> set (issueHighlight parse createdAt now now')
      \<longleftrightarrow> instant (parsedOrZero parse ''2006-01-02T15:04:05Z'' createdAt)
            < instant (AddDate now 0 (- 3) 0))
   \<and> (statusNewEmoji \<in> set (issueHighlight parse createdAt now now')
      \<longleftrightarrow> instant now' - 5 * 86400 * 1000000000
            \<le> instant (parsedOrZero parse ''2006-01-02T15:04:05Z'' createdAt))
   \<and> (parse ''2006-01-02T15:04:05Z'' createdAt = Inr created
      \<longrightarrow> parsedOrZero parse ''2006-01-02T15:04:05Z'' createdAt = created)
   \<and> (validTime now \<longrightarrow> instant (AddDate now 0 (- 3) 0) + 89 * 86400 * 1000000000 \<le> instant now)
   \<and> (validTime now \<and> instant now \<le> instant now'
      \<longrightarrow> \<not> (statusOldEmoji \<in> set (issueHighlight parse createdAt now now')
            \<and> statusNewEmoji \<in> set (issueHighlight parse createdAt now now')))"
  using highlight_old [of parse createdAt now now'] highlight_new [of parse createdAt now now']
    instant_days_back [of now' 5] instant_months_back [of now]
    never_both [of now now' parse createdAt]
  by (simp add: parsedOrZero_def)

theorem highlight_age_witness:
  "(\<lambda>layout s. if s = ''2021-06-15T08:30:00Z''
        then Inr \<lparr>t_year = 2021, t_month = 6, t_day = 15, t_hour = 8, t_min = 30, t_sec = 0, t_nsec = 0\<rparr>
        else Inl DecodeError) ''2006-01-02T15:04:05Z'' ''2021-06-15T08:30:00Z''
     = Inr \<lparr>t_year = 2021, t_month = 6, t_day = 15, t_hour = 8, t_min = 30, t_sec = 0, t_nsec = 0\<rparr>
   \<and> validTime \<lparr>t_year = 2021, t_month = 11, t_day = 1, t_hour = 12, t_min = 0, t_sec = 0, t_nsec = 0\<rparr>
   \<and> instant \<lparr>t_year = 2021, t_month = 6, t_day = 15, t_hour = 8, t_min = 30, t_sec = 0, t_nsec = 0\<rparr>
       < instant (AddDate \<lparr>t_year = 2021, t_month = 11, t_day = 1, t_hour = 12, t_min = 0, t_sec = 0,
            t_nsec = 0\<rparr> 0 (- 3) 0)
   \<and> statusOldEmoji \<in> set (issueHighlight
        (\<lambda>layout s. if s = ''2021-06-15T08:30:00Z''
          then Inr \<lparr>t_year = 2021, t_month = 6, t_day = 15, t_hour = 8, t_min = 30, t_sec = 0, t_nsec = 0\<rparr>
          else Inl DecodeError)
        ''2021-06-15T08:30:00Z''
        \<lparr>t_year = 2021, t_month = 11, t_day = 1, t_hour = 12, t_min = 0, t_sec = 0, t_nsec = 0\<rparr>
        \<lparr>t_year = 2021, t_month = 11, t_day = 1, t_hour = 12, t_min = 0, t_sec = 0, t_nsec = 0\<rparr>)
   \<and> statusNewEmoji \<notin> set (issueHighlight
        (\<lambda>layout s. if s = ''2021-06-15T08:30:00Z''
          then Inr \<lparr>t_year = 2021, t_month = 6, t_day = 15, t_hour = 8, t_min = 30, t_sec = 0, t_nsec = 0\<rparr>
          else Inl DecodeError)
        ''2021-06-15T08:30:00Z''
        \<lparr>t_year = 2021, t_month = 11, t_day = 1, t_hour = 12, t_min = 0, t_sec = 0, t_nsec = 0\<rparr>
        \<lparr>t_year = 2021, t_month = 11, t_day = 1, t_hour = 12, t_min = 0, t_sec = 0, t_nsec = 0\<rparr>)"
proof -
  let ?created = "\<lparr>t_year = 2021, t_month = 6, t_day = 15, t_hour = 8, t_min = 30, t_sec = 0, t_nsec = 0\<rparr>"
  let ?parse = "\<lambda>layout s. if s = ''2021-06-15T08:30:00Z'' then Inr ?created
        else (Inl DecodeError :: error + Time)"
  let ?now = "\<lparr>t_year = 2021, t_month = 11, t_day = 1, t_hour = 12, t_min = 0, t_sec = 0, t_nsec = 0\<rparr>"
  have p: "?parse ''2006-01-02T15:04:05Z'' ''2021-06-15T08:30:00Z'' = Inr ?created" by simp
  have v: "validTime ?now" by code_simp
  have lt: "instant ?created < instant (AddDate ?now 0 (- 3) 0)" by code_simp
  note t = highlight_age [where parse = ?parse and createdAt = "''2021-06-15T08:30:00Z''"
      and created = ?created and now = ?now and now' = ?now]
  from t p have c: "parsedOrZero ?parse ''2006-01-02T15:04:05Z'' ''2021-06-15T08:30:00Z'' = ?created"
    by blast
  from t have "statusOldEmoji \<in> set (issueHighlight ?parse ''2021-06-15T08:30:00Z'' ?now ?now)
      \<longleftrightarrow> instant (parsedOrZero ?parse ''2006-01-02T15:04:05Z'' ''2021-06-15T08:30:00Z'')
            < instant (AddDate ?now 0 (- 3) 0)"
    by (rule conjunct1)
  with lt have old: "statusOldEmoji \<in> set (issueHighlight ?parse ''2021-06-15T08:30:00Z'' ?now ?now)"
    unfolding c by blast
  from t v have "\<not> (statusOldEmoji \<in> set (issueHighlight ?parse ''2021-06-15T08:30:00Z'' ?now ?now)
            \<and> statusNewEmoji \<in> set (issueHighlight ?parse ''2021-06-15T08:30:00Z'' ?now ?now))"
    by simp
  with old have new: "statusNewEmoji \<notin> set (issueHighlight ?parse ''2021-06-15T08:30:00Z'' ?now ?now)"
    by blast
  from p v lt old new show ?thesis by (intro conjI)
qed

section \<open>Properties of the card path\<close>

lemma of_char_less_256: "(of_char c :: nat) < 256"
proof -
  have "(of_char c :: nat) mod 256 = of_char c" by (rule of_char_mod_256)
  moreover have "(of_char c :: nat) mod 256 < 256" by simp
  ultimately show ?thesis by simp
qed

lemma of_char_upperRune:
  "(of_char (upperRune c) :: nat) =
     (if 97 \<le> (of_char c :: nat) \<and> (of_char c :: nat) \<le> 122 then of_char c - 32 else of_char c)"
proof -
  define n where "n = (of_char c :: nat)"
  have "n < 256" unfolding n_def by (rule of_char_less_256)
  then have "(n - 32) mod 256 = n - 32" by simp
  then show ?thesis
    unfolding upperRune_def isLower_def less_eq_char_def n_def [symmetric]
    by (simp add: n_def [symmetric])
qed

lemma of_char_lowerRune:
  "(of_char (lowerRune c) :: nat) =
     (if 65 \<le> (of_char c :: nat) \<and> (of_char c :: nat) \<le> 90 then of_char c + 32 else of_char c)"
proof -
  define n where "n = (of_char c :: nat)"
  have "65 \<le> n \<and> n \<le> 90 \<Longrightarrow> (n + 32) mod 256 = n + 32" by simp
  then show ?thesis
    unfolding lowerRune_def isUpper_def less_eq_char_def n_def [symmetric]
    by (simp add: n_def [symmetric])
qed

lemma char_eqI: "(of_char a :: nat) = of_char b \<Longrightarrow> a = b"
  by simp

lemma lower_upper: "lowerRune (upperRune c) = lowerRune c"
proof (rule char_eqI)
  define n where "n = (of_char c :: nat)"
  show "(of_char (lowerRune (upperRune c)) :: nat) = of_char (lowerRune c)"
    unfolding of_char_lowerRune of_char_upperRune n_def [symmetric] by auto
qed

lemma upper_upper: "upperRune (upperRune c) = upperRune c"
proof (rule char_eqI)
  define n where "n = (of_char c :: nat)"
  show "(of_char (upperRune (upperRune c)) :: nat) = of_char (upperRune c)"
    unfolding of_char_upperRune n_def [symmetric] by auto
qed

lemma fold_upper:
  assumes "lowerRune a = lowerRune b"
  shows "upperRune a = upperRune b"
proof (rule char_eqI)
  define n where "n = (of_char a :: nat)"
  define m where "m = (of_char b :: nat)"
  from assms have "(of_char (lowerRune a) :: nat) = of_char (lowerRune b)" by simp
  then have "(if 65 \<le> n \<and> n \<le> 90 then n + 32 else n) = (if 65 \<le> m \<and> m \<le> 90 then m + 32 else m)"
    unfolding of_char_lowerRune n_def m_def .
  then have "(if 97 \<le> n \<and> n \<le> 122 then n - 32 else n) = (if 97 \<le> m \<and> m \<le> 122 then m - 32 else m)"
    by (auto split: if_splits)
  then show "(of_char (upperRune a) :: nat) = of_char (upperRune b)"
    unfolding of_char_upperRune n_def m_def .
qed

lemma EqualFold_length: "strings_EqualFold s t \<Longrightarrow> length s = length t"
  by (induction s t rule: strings_EqualFold.induct) auto

lemma EqualFold_titleFrom: "strings_EqualFold (titleFrom p s) t = strings_EqualFold s t"
proof (induction s arbitrary: p t)
  case Nil
  show ?case by simp
next
  case (Cons c s)
  show ?case by (cases t) (simp_all add: Cons.IH lower_upper)
qed

lemma EqualFold_upper: "strings_EqualFold s t \<Longrightarrow> map upperRune s = map upperRune t"
  by (induction s t rule: strings_EqualFold.induct) (auto dest: fold_upper)

lemma EqualFold_lower: "strings_EqualFold s t \<Longrightarrow> map lowerRune s = map lowerRune t"
  by (induction s t rule: strings_EqualFold.induct) auto

lemma upper_titleFrom: "map upperRune (titleFrom p s) = map upperRune s"
  by (induction s arbitrary: p) (auto simp: upper_upper)

lemma lower_titleFrom: "map lowerRune (titleFrom p s) = map lowerRune s"
  by (induction s arbitrary: p) (auto simp: lower_upper)

lemma upper_cli: "map upperRune ''cli'' = ''CLI''"
  by code_simp

lemma lower_cluster: "map lowerRune ''cluster-lifecycle'' = ''cluster-lifecycle''"
  by code_simp

lemma normal_form:
  "(let sig = strings_Title name;
        sig = (if strings_EqualFold sig ''cli'' then strings_ToUpper sig else sig);
        sig = (if strings_EqualFold sig ''cluster-lifecycle'' then strings_ToLower sig else sig)
    in sig) = spec_sigName name"
proof -
  consider (cli) "strings_EqualFold name ''cli''"
    | (cluster) "\<not> strings_EqualFold name ''cli''" "strings_EqualFold name ''cluster-lifecycle''"
    | (other) "\<not> strings_EqualFold name ''cli''" "\<not> strings_EqualFold name ''cluster-lifecycle''"
    by blast
  then show ?thesis
  proof cases
    case cli
    have up: "strings_ToUpper (strings_Title name) = ''CLI''"
      using EqualFold_upper [OF cli]
      by (simp only: strings_ToUpper_def strings_Title_def upper_titleFrom upper_cli)
    have "\<not> strings_EqualFold ''CLI'' ''cluster-lifecycle''"
      using EqualFold_length [of "''CLI''" "''cluster-lifecycle''"] by auto
    with cli up show ?thesis
      by (simp add: Let_def spec_sigName_def strings_Title_def EqualFold_titleFrom)
  next
    case cluster
    have low: "strings_ToLower (strings_Title name) = ''cluster-lifecycle''"
      using EqualFold_lower [OF cluster(2)]
      by (simp only: strings_ToLower_def strings_Title_def lower_titleFrom lower_cluster)
    from cluster low show ?thesis
      by (simp add: Let_def spec_sigName_def strings_Title_def EqualFold_titleFrom)
  next
    case other
    then show ?thesis
      by (simp add: Let_def spec_sigName_def strings_Title_def EqualFold_titleFrom)
  qed
qed

lemma sigOfLabels_match:
  "strings_Contains name ''sig/'' \<Longrightarrow>
   sigOfLabels sig (Some name # labels) = Returns (spec_sigName (strings_Remove name ''sig/''))"
  using normal_form [of "strings_Remove name ''sig/''"] by (simp add: Let_def)

lemma sigOfLabels_skip:
  "\<forall>l \<in> set before. \<not> strings_Contains l ''sig/'' \<Longrightarrow>
   sigOfLabels sig (map Some before @ labels) = sigOfLabels sig labels"
  by (induction before) auto

lemma prefix_Contains: "prefix old s \<Longrightarrow> strings_Contains s old"
  by (cases s) auto

lemma Contains_tl: "s \<noteq> [] \<Longrightarrow> strings_Contains (tl s) old \<Longrightarrow> strings_Contains s old"
  by (cases s) auto

lemma Remove_absent: "\<not> strings_Contains s old \<Longrightarrow> strings_Remove s old = s"
proof (induction s old rule: strings_Remove.induct)
  case (1 s old)
  show ?case
  proof (cases "old = [] \<or> s = []")
    case True
    then show ?thesis by (subst strings_Remove.simps) simp
  next
    case False
    with "1.prems" have np: "\<not> prefix old s" and nt: "\<not> strings_Contains (tl s) old"
      using prefix_Contains Contains_tl by blast+
    from "1.IH"(2) [OF False np nt] False np show ?thesis
      by (subst strings_Remove.simps) simp
  qed
qed

lemma Remove_prefix:
  "old \<noteq> [] \<Longrightarrow> strings_Remove (old @ s) old = strings_Remove s old"
  by (subst strings_Remove.simps) simp

text \<open>
  Claim C6. On the card path the SIG comes from the first label that contains \<open>sig/\<close>;
  the labels after it are not read. With the name what is left of that label when \<open>sig/\<close>
  is removed (for a label \<open>sig/<name>\<close>, the name itself): the name \<open>cli\<close> gives \<open>CLI\<close>, the
  name \<open>cluster-lifecycle\<close> gives \<open>cluster-lifecycle\<close>, both compared without regard to the
  case of letters, and every other name gives its title case, the first letter of each
  word in upper case. So \<open>sig/cli\<close>, \<open>sig/cluster-lifecycle\<close> and \<open>sig/node\<close> give \<open>CLI\<close>,
  \<open>cluster-lifecycle\<close> and \<open>Node\<close>. The label is taken to be ASCII, where the model of the
  case mappings is that of Go.
\<close>

theorem card_sig_normalised:
  assumes "\<forall>l \<in> set before. \<not> strings_Contains l ''sig/''"
    and "strings_Contains label ''sig/''"
    and "isASCII label"
  shows "sigOfLabels sig (map Some before @ Some label # after)
           = Returns (spec_sigName (strings_Remove label ''sig/''))
       \<and> (\<not> strings_Contains name ''sig/'' \<longrightarrow> strings_Remove (''sig/'' @ name) ''sig/'' = name)
       \<and> sigOfLabels [] [Some ''sig/cli''] = Returns ''CLI''
       \<and> sigOfLabels [] [Some ''sig/cluster-lifecycle''] = Returns ''cluster-lifecycle''
       \<and> sigOfLabels [] [Some ''sig/node''] = Returns ''Node''"
proof -
  have first: "sigOfLabels sig (map Some before @ Some label # after)
           = Returns (spec_sigName (strings_Remove label ''sig/''))"
    using sigOfLabels_skip [OF assms(1)] sigOfLabels_match [OF assms(2)] by simp
  have name: "\<not> strings_Contains name ''sig/'' \<longrightarrow> strings_Remove (''sig/'' @ name) ''sig/'' = name"
    using Remove_prefix [of "''sig/''" name] Remove_absent [of name "''sig/''"] by simp
  have cli: "sigOfLabels [] [Some ''sig/cli''] = Returns ''CLI''" by code_simp
  have cluster: "sigOfLabels [] [Some ''sig/cluster-lifecycle''] = Returns ''cluster-lifecycle''"
    by code_simp
  have node: "sigOfLabels [] [Some ''sig/node''] = Returns ''Node''" by code_simp
  from first name cli cluster node show ?thesis by blast
qed

theorem card_sig_normalised_witness:
  "\<not> strings_Contains ''kind/failing-test'' ''sig/''
   \<and> \<not> strings_Contains ''priority/important-soon'' ''sig/''
   \<and> strings_Contains ''sig/api-machinery'' ''sig/''
   \<and> isASCII ''sig/api-machinery''
   \<and> \<not> strings_Contains ''api-machinery'' ''sig/''
   \<and> sigOfLabels [] [Some ''kind/failing-test'', Some ''priority/important-soon'',
        Some ''sig/api-machinery'', Some ''sig/cli'', None] = Returns ''Api-Machinery''"
proof -
  have a: "\<forall>l \<in> set [''kind/failing-test'', ''priority/important-soon'']. \<not> strings_Contains l ''sig/''"
    by simp
  have b: "strings_Contains ''sig/api-machinery'' ''sig/''" by simp
  have c: "isASCII ''sig/api-machinery''" by code_simp
  have d: "\<not> strings_Contains ''api-machinery'' ''sig/''" by simp
  have e: "spec_sigName ''api-machinery'' = ''Api-Machinery''" by code_simp
  note t = card_sig_normalised [OF a b c, where name = "''api-machinery''" and sig = "[]"
      and after = "[Some ''sig/cli'', None]"]
  from t have "sigOfLabels []
      (map Some [''kind/failing-test'', ''priority/important-soon'']
        @ Some ''sig/api-machinery'' # [Some ''sig/cli'', None])
      = Returns (spec_sigName (strings_Remove ''sig/api-machinery'' ''sig/''))"
    by (rule conjunct1)
  then have r: "sigOfLabels [] [Some ''kind/failing-test'', Some ''priority/important-soon'',
        Some ''sig/api-machinery'', Some ''sig/cli'', None]
      = Returns (spec_sigName (strings_Remove ''sig/api-machinery'' ''sig/''))"
    unfolding list.map append.simps .
  from t d have "strings_Remove (''sig/'' @ ''api-machinery'') ''sig/'' = ''api-machinery''"
    by blast
  then have n: "strings_Remove ''sig/api-machinery'' ''sig/'' = ''api-machinery''"
    unfolding append.simps .
  have "sigOfLabels [] [Some ''kind/failing-test'', Some ''priority/important-soon'',
        Some ''sig/api-machinery'', Some ''sig/cli'', None] = Returns ''Api-Machinery''"
    unfolding r n e ..
  moreover have "\<not> strings_Contains ''kind/failing-test'' ''sig/''"
    and "\<not> strings_Contains ''priority/important-soon'' ''sig/''"
    by simp_all
  ultimately show ?thesis using b c d by blast
qed

lemma sort_key_head_Min:
  assumes "xs \<noteq> []"
  shows "\<exists>y ys. sort_key f xs = y # ys \<and> f y = Min (f ` set xs)"
proof -
  from assms have "sort_key f xs \<noteq> []" by (metis length_sort list.size(3) length_0_conv)
  then obtain y ys where s: "sort_key f xs = y # ys" by (cases "sort_key f xs") auto
  have "sorted (map f (sort_key f xs))" by (rule sorted_sort_key)
  with s have le: "\<forall>z \<in> set ys. f y \<le> f z" by simp
  have set: "set (y # ys) = set xs" using s by (metis set_sort)
  then have "f y \<in> f ` set xs" by auto
  moreover have "\<forall>v \<in> f ` set xs. f y \<le> v" using le set by auto
  ultimately have "Min (f ` set xs) = f y"
    by (intro Min_eqI) auto
  with s show ?thesis by simp
qed

text \<open>
  Claim C4. When the columns are listed, \<open>findCardsID\<close> returns the lowest identifier among
  the columns whose name is the keyword, and the columns \<open>{5, Resolved}\<close>, \<open>{2, Resolved}\<close>
  resolve to 2. When no column has that name it does not return an error: it indexes the
  empty slice and panics, as on the board with the columns \<open>New\<close> and \<open>In flight\<close> only.
\<close>

theorem findCardsID_lowest_or_panic:
  "findCardsID listColumns projectID keyword =
     (case listColumns projectID of
        Inl err \<Rightarrow> Returns (0, Some err)
      | Inr cards \<Rightarrow>
          if filter (\<lambda>v. pc_Name v = Some keyword) cards = [] then Panics
          else Returns (Min (GetID ` set (filter (\<lambda>v. pc_Name v = Some keyword) cards)), None))
   \<and> findCardsID (\<lambda>project. Inr [\<lparr>pc_ID = Some 5, pc_Name = Some ''Resolved''\<rparr>,
                                  \<lparr>pc_ID = Some 2, pc_Name = Some ''Resolved''\<rparr>])
        githubCiSignalBoardProjectID ''Resolved'' = Returns (2, None)
   \<and> findCardsID (\<lambda>project. Inr [\<lparr>pc_ID = Some 4212817, pc_Name = Some ''New''\<rparr>,
                                  \<lparr>pc_ID = Some 4212819, pc_Name = Some ''In flight''\<rparr>])
        githubCiSignalBoardProjectID ''Resolved'' = Panics"
proof -
  have named: "(\<lambda>v. case pc_Name v of None \<Rightarrow> False | Some n \<Rightarrow> n = keyword)
      = (\<lambda>v. pc_Name v = Some keyword)"
    by (rule ext) (auto split: option.splits)
  have general: "findCardsID listColumns projectID keyword =
     (case listColumns projectID of
        Inl err \<Rightarrow> Returns (0, Some err)
      | Inr cards \<Rightarrow>
          if filter (\<lambda>v. pc_Name v = Some keyword) cards = [] then Panics
          else Returns (Min (GetID ` set (filter (\<lambda>v. pc_Name v = Some keyword) cards)), None))"
  proof (cases "listColumns projectID")
    case (Inl err)
    then show ?thesis by (simp add: findCardsID_def)
  next
    case (Inr cards)
    let ?m = "filter (\<lambda>v. pc_Name v = Some keyword) cards"
    show ?thesis
    proof (cases "?m = []")
      case True
      with Inr show ?thesis by (simp add: findCardsID_def named)
    next
      case False
      from sort_key_head_Min [OF False, of GetID] obtain y ys where
        "sort_key GetID ?m = y # ys" "GetID y = Min (GetID ` set ?m)" by blast
      with Inr False show ?thesis by (simp add: findCardsID_def named Let_def)
    qed
  qed
  have tie: "findCardsID (\<lambda>project. Inr [\<lparr>pc_ID = Some 5, pc_Name = Some ''Resolved''\<rparr>,
                                  \<lparr>pc_ID = Some 2, pc_Name = Some ''Resolved''\<rparr>])
        githubCiSignalBoardProjectID ''Resolved'' = Returns (2, None)"
    by (simp add: findCardsID_def GetID_def)
  have none: "findCardsID (\<lambda>project. Inr [\<lparr>pc_ID = Some 4212817, pc_Name = Some ''New''\<rparr>,
                                  \<lparr>pc_ID = Some 4212819, pc_Name = Some ''In flight''\<rparr>])
        githubCiSignalBoardProjectID ''Resolved'' = Panics"
    by (simp add: findCardsID_def)
  from general tie none show ?thesis by blast
qed

lemma sigOfLabels_not_Exits: "sigOfLabels sig labels \<noteq> Exits"
  by (induction sig labels rule: sigOfLabels.induct) (auto simp: Let_def)

lemma cardWorker_shape:
  "cardWorker web token c = Panics
   \<or> (card_ContentURL c = None \<and> cardWorker web token c = Returns ([], []))
   \<or> (\<exists>u overview. card_ContentURL c = Some u \<and> cardWorker web token c = Returns ([u], [overview]))"
  using sigOfLabels_not_Exits
  by (auto simp: cardWorker_def requestGhIssueDetail_def split: option.splits answer.splits run.splits)

lemma run_pair_id:
  "(case r of Returns (requests', sent') \<Rightarrow> Returns ([] @ requests', [] @ sent')
      | Exits \<Rightarrow> Exits | Panics \<Rightarrow> Panics) = r"
  by (cases r) auto

lemma cardWorkers_filter:
  "cardWorkers web token cards
     = cardWorkers web token (filter (\<lambda>c. card_ContentURL c \<noteq> None) cards)"
proof (induction cards)
  case Nil
  show ?case by simp
next
  case (Cons c cards)
  show ?case
  proof (cases "card_ContentURL c")
    case None
    then have "cardWorker web token c = Returns ([], [])" by (simp add: cardWorker_def)
    with None Cons show ?thesis by (simp add: run_pair_id del: not_None_eq)
  next
    case (Some u)
    with Cons show ?thesis by (simp del: not_None_eq split: run.splits)
  qed
qed

lemma cardWorkers_returned:
  "cardWorkers web token cards = Returns (requests, sent) \<Longrightarrow>
   requests = List.map_filter card_ContentURL cards \<and> length sent = length requests"
proof (induction cards arbitrary: requests sent)
  case Nil
  then show ?case by (simp add: List.map_filter_simps)
next
  case (Cons c cards)
  from Cons.prems obtain r1 s1 r2 s2 where
    w: "cardWorker web token c = Returns (r1, s1)"
    and rest: "cardWorkers web token cards = Returns (r2, s2)"
    and eq: "requests = r1 @ r2" "sent = s1 @ s2"
    by (auto split: run.splits prod.splits)
  from Cons.IH [OF rest] have ih: "r2 = List.map_filter card_ContentURL cards" "length s2 = length r2"
    by auto
  from cardWorker_shape [of web token c] w
  have "(card_ContentURL c = None \<and> r1 = [] \<and> s1 = [])
      \<or> (\<exists>u overview. card_ContentURL c = Some u \<and> r1 = [u] \<and> s1 = [overview])"
    by auto
  with ih eq show ?case by (auto simp: List.map_filter_simps)
qed

lemma cardWorkers_total:
  "\<forall>c \<in> set cards. cardWorker web token c \<noteq> Panics \<Longrightarrow>
   \<exists>requests sent. cardWorkers web token cards = Returns (requests, sent)"
proof (induction cards)
  case Nil
  show ?case by simp
next
  case (Cons c cards)
  then obtain r2 s2 where rest: "cardWorkers web token cards = Returns (r2, s2)" by auto
  from Cons.prems cardWorker_shape [of web token c]
  obtain r1 s1 where "cardWorker web token c = Returns (r1, s1)" by auto
  with rest show ?case by simp
qed

text \<open>
  Claim C10. A card without a content reference contributes nothing: dropping such cards
  from the column changes neither the requests nor the records. When the goroutines
  return, one request was made and one record sent for each card with a content
  reference, in the model's order of the cards; they return whenever no goroutine
  panics. A request that cannot be sent makes its goroutine panic (the nil response is
  dereferenced), so the card of the first line yields no record.
\<close>

theorem cards_one_record_each:
  "assembleCardRequests (\<lambda>column. Inr [\<lparr>card_ContentURL = Some ''https://api.github.com/repos/kubernetes/kubernetes/issues/7''\<rparr>])
      (\<lambda>url token. NoResponse) ''token'' 4212817 = Panics
   \<and> assembleCardRequests listCards web token cardsID
       = assembleCardRequests
           (\<lambda>column. map_sum id (filter (\<lambda>c. card_ContentURL c \<noteq> None)) (listCards column))
           web token cardsID
   \<and> (listCards cardsID = Inr cards
        \<and> assembleCardRequests listCards web token cardsID = Returns (requests, sent)
      \<longrightarrow> requests = List.map_filter card_ContentURL cards \<and> length sent = length requests)
   \<and> (listCards cardsID = Inr cards \<and> (\<forall>c \<in> set cards. cardWorker web token c \<noteq> Panics)
      \<longrightarrow> (\<exists>requests sent. assembleCardRequests listCards web token cardsID
                = Returns (requests, sent)))"
proof -
  have bug: "assembleCardRequests (\<lambda>column. Inr [\<lparr>card_ContentURL = Some ''https://api.github.com/repos/kubernetes/kubernetes/issues/7''\<rparr>])
      (\<lambda>url token. NoResponse) ''token'' 4212817 = Panics"
    by (simp add: assembleCardRequests_def cardWorker_def requestGhIssueDetail_def)
  have drop: "assembleCardRequests listCards web token cardsID
       = assembleCardRequests
           (\<lambda>column. map_sum id (filter (\<lambda>c. card_ContentURL c \<noteq> None)) (listCards column))
           web token cardsID"
    using cardWorkers_filter [of web token]
    by (cases "listCards cardsID") (simp_all add: assembleCardRequests_def del: not_None_eq)
  have ret: "listCards cardsID = Inr cards
        \<and> assembleCardRequests listCards web token cardsID = Returns (requests, sent)
      \<longrightarrow> requests = List.map_filter card_ContentURL cards \<and> length sent = length requests"
    using cardWorkers_returned [of web token cards requests sent]
    by (auto simp: assembleCardRequests_def)
  have tot: "listCards cardsID = Inr cards \<and> (\<forall>c \<in> set cards. cardWorker web token c \<noteq> Panics)
      \<longrightarrow> (\<exists>requests sent. assembleCardRequests listCards web token cardsID
                = Returns (requests, sent))"
    using cardWorkers_total [of cards web token]
    by (auto simp: assembleCardRequests_def)
  from bug drop ret tot show ?thesis by blast
qed

theorem cards_one_record_each_witness:
  "cardWorker (\<lambda>url token. Detail \<lparr>gd_Number = 7, gd_HTMLURL = ''https://github.com/i/7'',
          gd_Title = ''[Failing Test] e2e'', gd_Labels = [Some ''sig/node'']\<rparr>) ''token''
      \<lparr>card_ContentURL = None\<rparr> \<noteq> Panics
   \<and> cardWorker (\<lambda>url token. Detail \<lparr>gd_Number = 7, gd_HTMLURL = ''https://github.com/i/7'',
          gd_Title = ''[Failing Test] e2e'', gd_Labels = [Some ''sig/node'']\<rparr>) ''token''
      \<lparr>card_ContentURL = Some ''https://api.github.com/i/7''\<rparr> \<noteq> Panics
   \<and> assembleCardRequests
        (\<lambda>column. Inr [\<lparr>card_ContentURL = None\<rparr>, \<lparr>card_ContentURL = Some ''https://api.github.com/i/7''\<rparr>])
        (\<lambda>url token. Detail \<lparr>gd_Number = 7, gd_HTMLURL = ''https://github.com/i/7'',
          gd_Title = ''[Failing Test] e2e'', gd_Labels = [Some ''sig/node'']\<rparr>) ''token'' 4212817
      = Returns ([''https://api.github.com/i/7''],
          [\<lparr>ov_URL = ''https://github.com/i/7'', ov_ID = 7, ov_Title = '' e2e'', ov_Sig = ''Node''\<rparr>])"
proof -
  let ?web = "\<lambda>url token. Detail \<lparr>gd_Number = 7, gd_HTMLURL = ''https://github.com/i/7'',
          gd_Title = ''[Failing Test] e2e'', gd_Labels = [Some ''sig/node'']\<rparr>"
  let ?cards = "[\<lparr>card_ContentURL = None\<rparr>, \<lparr>card_ContentURL = Some ''https://api.github.com/i/7''\<rparr>]"
  have w1: "cardWorker ?web ''token'' \<lparr>card_ContentURL = None\<rparr> = Returns ([], [])"
    by (simp add: cardWorker_def)
  have w2: "cardWorker ?web ''token'' \<lparr>card_ContentURL = Some ''https://api.github.com/i/7''\<rparr>
      = Returns ([''https://api.github.com/i/7''],
          [\<lparr>ov_URL = ''https://github.com/i/7'', ov_ID = 7, ov_Title = '' e2e'', ov_Sig = ''Node''\<rparr>])"
    by code_simp
  have np: "\<forall>c \<in> set ?cards. cardWorker ?web ''token'' c \<noteq> Panics"
    using w1 w2 by simp
  have "\<exists>requests sent. assembleCardRequests (\<lambda>column. Inr ?cards) ?web ''token'' 4212817
      = Returns (requests, sent)"
    using cards_one_record_each [where listCards = "\<lambda>column. Inr ?cards" and cards = ?cards
        and web = ?web and token = "''token''" and cardsID = 4212817] np
    by blast
  moreover have "assembleCardRequests (\<lambda>column. Inr ?cards) ?web ''token'' 4212817
      = Returns ([''https://api.github.com/i/7''],
          [\<lparr>ov_URL = ''https://github.com/i/7'', ov_ID = 7, ov_Title = '' e2e'', ov_Sig = ''Node''\<rparr>])"
    using w1 w2 by (simp add: assembleCardRequests_def)
  ultimately show ?thesis using w1 w2 by simp
qed

end
